theory Spec2Isabelle
  imports Complex_Main "HOL-Library.Char_ord" "HOL-Library.List_Lexorder" "HOL-Library.AList"
begin

section \<open>Python strings\<close>

text \<open>
  A Python \<open>str\<close> is modelled as a \<open>string\<close> whose characters stand for the code points
  below 256.  The methods below are the ones \<open>takeout.py\<close> calls.
\<close>

definition LF :: char where
  "LF = CHR 0x0A"

definition CR :: char where
  "CR = CHR 0x0D"

definition startswith :: "string \<Rightarrow> string \<Rightarrow> bool" where
  "startswith s p = (take (length p) s = p)"

definition endswith :: "string \<Rightarrow> string \<Rightarrow> bool" where
  "endswith s p = (length p \<le> length s \<and> drop (length s - length p) s = p)"

text \<open>\<open>str.isspace\<close> on the code points below 256, and \<open>str.strip()\<close>.\<close>

definition isspace :: "char \<Rightarrow> bool" where
  "isspace c = (of_char c \<in> set [9, 10, 11, 12, 13, 28, 29, 30, 31, 32, 133, 160 :: nat])"

definition strip :: "string \<Rightarrow> string" where
  "strip s = rev (dropWhile isspace (rev (dropWhile isspace s)))"

text \<open>\<open>s.replace(a, b)\<close> and \<open>s.count(a)\<close> for a one-character \<open>a\<close>.\<close>

definition str_replace :: "char \<Rightarrow> char \<Rightarrow> string \<Rightarrow> string" where
  "str_replace a b s = map (\<lambda>c. if c = a then b else c) s"

definition str_count :: "string \<Rightarrow> char \<Rightarrow> nat" where
  "str_count s a = length (filter (\<lambda>c. c = a) s)"

section \<open>Paths (\<open>os.path\<close> on POSIX)\<close>

definition os_sep :: char where
  "os_sep = CHR ''/''"

definition os_path_join :: "string \<Rightarrow> string \<Rightarrow> string" where
  "os_path_join a b =
     (if startswith b [os_sep] then b
      else if a = [] \<or> endswith a [os_sep] then a @ b
      else a @ [os_sep] @ b)"

definition os_path_basename :: "string \<Rightarrow> string" where
  "os_path_basename p = rev (takeWhile (\<lambda>c. c \<noteq> os_sep) (rev p))"

text \<open>
  Every path the program handles is \<open>root_dir\<close> joined with the names of directory entries,
  one \<open>os.path.join\<close> per name (\<open>os.walk\<close> builds \<open>dirpath\<close> that way, line 70 adds the file
  name).  The model keeps such a path as the list of the joined names; \<open>path_string\<close> is the
  Python string it stands for.  \<open>os.path.dirname\<close> drops the last name, and
  \<open>os.path.relpath(p, root_dir)\<close> joins the names again, or is \<open>.\<close> when there is none.
\<close>

type_synonym path = "string list"

definition path_string :: "string \<Rightarrow> path \<Rightarrow> string" where
  "path_string root_dir p = foldl os_path_join root_dir p"

definition os_path_dirname :: "path \<Rightarrow> path" where
  "os_path_dirname p = butlast p"

definition os_path_relpath :: "path \<Rightarrow> string" where
  "os_path_relpath p = (if p = [] then ''.'' else foldl os_path_join (hd p) (tl p))"

section \<open>The file system\<close>

text \<open>
  A regular file carries two bits of its mode, whether its owner may open it for reading and
  whether for writing, and its content: text (bytes that decode as UTF-8, given decoded) or
  bytes that do not decode.  The files belong to the user who runs the program, who is not
  the superuser, so these bits decide what the program may open.  A directory is the list of
  its entries in the order \<open>os.scandir\<close> and \<open>os.listdir\<close> report them.  Symbolic links,
  special files and the permissions of directories are outside the model.
\<close>

datatype content = Text string | Binary string

datatype fsnode = File bool bool content | Dir "(string \<times> fsnode) list"

type_synonym entries = "(string \<times> fsnode) list"

datatype pyerror =
    FileNotFoundError
  | NotADirectoryError
  | IsADirectoryError
  | PermissionError
  | UnicodeDecodeError
  | FileExistsError
  | DirectoryNotEmpty
  | ValueError
  | OverflowError

text \<open>The names a file system allows for an entry.\<close>

definition valid_name :: "string \<Rightarrow> bool" where
  "valid_name n = (n \<noteq> [] \<and> os_sep \<notin> set n \<and> n \<noteq> ''.'' \<and> n \<noteq> ''..'')"

text \<open>A well-formed directory: valid names, no name twice, and so below it.\<close>

fun valid_tree :: "entries \<Rightarrow> bool" where
  "valid_tree [] = True"
| "valid_tree ((n, File _ _ _) # es) = (valid_name n \<and> n \<notin> fst ` set es \<and> valid_tree es)"
| "valid_tree ((n, Dir sub) # es) =
     (valid_name n \<and> n \<notin> fst ` set es \<and> valid_tree sub \<and> valid_tree es)"

fun dirnames_of :: "entries \<Rightarrow> string list" where
  "dirnames_of [] = []"
| "dirnames_of ((n, Dir _) # es) = n # dirnames_of es"
| "dirnames_of ((n, File _ _ _) # es) = dirnames_of es"

fun filenames_of :: "entries \<Rightarrow> string list" where
  "filenames_of [] = []"
| "filenames_of ((n, Dir _) # es) = filenames_of es"
| "filenames_of ((n, File _ _ _) # es) = n # filenames_of es"

fun lookup_dir :: "entries \<Rightarrow> string \<Rightarrow> entries option" where
  "lookup_dir [] d = None"
| "lookup_dir ((n, Dir sub) # es) d = (if n = d then Some sub else lookup_dir es d)"
| "lookup_dir ((n, File _ _ _) # es) d = lookup_dir es d"

fun lookup_path :: "entries \<Rightarrow> path \<Rightarrow> fsnode option" where
  "lookup_path es [] = None"
| "lookup_path es [n] = map_of es n"
| "lookup_path es (n # m # p) =
     (case map_of es n of Some (Dir sub) \<Rightarrow> lookup_path sub (m # p) | _ \<Rightarrow> None)"

text \<open>
  \<open>os.walk(root_dir, topdown=True)\<close>: each directory yields its path, the names of its
  subdirectories and the names of its other entries; the loop body then edits the list of
  subdirectories in place (\<open>prune\<close>), and the walk descends into the names that are left.
  A name that is no directory yields nothing.
\<close>

function os_walk ::
  "(string list \<Rightarrow> string list) \<Rightarrow> path \<Rightarrow> entries \<Rightarrow> (path \<times> string list \<times> string list) list"
where
  "os_walk prune dirpath es =
     (dirpath, prune (dirnames_of es), filenames_of es) #
     concat (map (\<lambda>d. case lookup_dir es d of
                         None \<Rightarrow> []
                       | Some sub \<Rightarrow> os_walk prune (dirpath @ [d]) sub)
                 (prune (dirnames_of es)))"
  by pat_completeness auto
termination
proof (relation "measure (\<lambda>(p, t, es). size_list (size_prod (\<lambda>_. 0) size) es)")
  show "wf (measure (\<lambda>(p, t, es). size_list (size_prod (\<lambda>_. 0) size) es))"
    by simp
next
  fix prune :: "string list \<Rightarrow> string list" and dirpath :: path and es sub :: entries and d
  assume "lookup_dir es d = Some sub"
  then have "size_list (size_prod (\<lambda>_. 0) size) sub < size_list (size_prod (\<lambda>_. 0) size) es"
    by (induction es d rule: lookup_dir.induct) (auto split: if_splits)
  then show "((prune, dirpath @ [d], sub), (prune, dirpath, es))
             \<in> measure (\<lambda>(p, t, es). size_list (size_prod (\<lambda>_. 0) size) es)"
    by simp
qed

declare os_walk.simps [simp del]

section \<open>The tree walker and filter (lines 65 to 73)\<close>

text \<open>Line 66 (and line 78): the directories the walk keeps.\<close>

definition prune_dirnames :: "string set \<Rightarrow> string list \<Rightarrow> string list" where
  "prune_dirnames ignore_patterns dirnames =
     filter (\<lambda>d. d @ ''/'' \<notin> ignore_patterns \<and> d \<notin> set [''.git'', ''.takeout'']) dirnames"

text \<open>Line 68 (and, negated, line 84): the files left out.\<close>

definition file_ignored :: "string set \<Rightarrow> string \<Rightarrow> bool" where
  "file_ignored ignore_patterns filename =
     (filename \<in> ignore_patterns \<or>
      (\<exists>p \<in> ignore_patterns. startswith p ''*.'' \<and> endswith filename (drop 1 p)))"

text \<open>
  \<open>file_paths\<close> is a dict from a file name to the list of its paths; a dict keeps its keys
  in insertion order, so it is an association list.  Lines 71 to 73:
\<close>

type_synonym file_index = "(string \<times> path list) list"

fun index_append :: "string \<Rightarrow> path \<Rightarrow> file_index \<Rightarrow> file_index" where
  "index_append filename file_path [] = [(filename, [file_path])]"
| "index_append filename file_path ((k, paths) # rest) =
     (if k = filename then (k, paths @ [file_path]) # rest
      else (k, paths) # index_append filename file_path rest)"

definition index_filenames :: "string set \<Rightarrow> path \<Rightarrow> string list \<Rightarrow> file_index \<Rightarrow> file_index" where
  "index_filenames ignore_patterns dirpath filenames file_paths =
     fold (\<lambda>filename acc.
             if file_ignored ignore_patterns filename then acc
             else index_append filename (dirpath @ [filename]) acc)
          filenames file_paths"

definition build_file_paths :: "string set \<Rightarrow> entries \<Rightarrow> file_index" where
  "build_file_paths ignore_patterns es =
     fold (\<lambda>(dirpath, dirnames, filenames) acc.
             index_filenames ignore_patterns dirpath filenames acc)
          (os_walk (prune_dirnames ignore_patterns) [] es) []"

section \<open>The structure guide (lines 75 to 85)\<close>

definition guide_name :: string where
  "guide_name = ''structure_guide.txt''"

text \<open>Line 79: the depth of a visited directory, read off its relative path.\<close>

definition guide_level :: "path \<Rightarrow> nat" where
  "guide_level dirpath =
     (if os_path_relpath dirpath = ''.'' then 0
      else str_count (os_path_relpath dirpath) os_sep + 1)"

definition indent_of :: "nat \<Rightarrow> string" where
  "indent_of level = concat (replicate level ''    '')"

text \<open>Lines 83 and 84: the files of a visited directory that get a line, in the order of
  their lines.\<close>

definition listed_files :: "string set \<Rightarrow> string list \<Rightarrow> string list" where
  "listed_files ignore_patterns files =
     filter (\<lambda>file. \<not> file_ignored ignore_patterns file) (sort files)"

text \<open>Lines 78 to 85: what one visited directory writes.\<close>

definition guide_block :: "string \<Rightarrow> string set \<Rightarrow> path \<times> string list \<times> string list \<Rightarrow> string" where
  "guide_block root_dir ignore_patterns t =
     (case t of (dirpath, dirnames, filenames) \<Rightarrow>
        let level = guide_level dirpath;
            indent = indent_of level;
            sub_indent = indent_of (level + 1)
        in indent @ os_path_basename (path_string root_dir dirpath) @ ''/'' @ [LF] @
           concat (map (\<lambda>file. sub_indent @ file @ [LF])
                       (listed_files ignore_patterns filenames)))"

definition structure_guide_text :: "string \<Rightarrow> string set \<Rightarrow> entries \<Rightarrow> string" where
  "structure_guide_text root_dir ignore_patterns es =
     ''Project Structure for: '' @ os_path_basename root_dir @ [LF, LF] @
     concat (map (guide_block root_dir ignore_patterns)
                 (os_walk (prune_dirnames ignore_patterns) [] es))"

section \<open>The ignore-pattern loader (lines 30 to 40)\<close>

text \<open>
  Reading a file opened in text mode: \<open>\r\n\<close> and \<open>\r\<close> become \<open>\n\<close>, and iterating over the
  file yields the lines, each with its \<open>\n\<close> (the last one may have none).
\<close>

fun universal_newlines :: "string \<Rightarrow> string" where
  "universal_newlines [] = []"
| "universal_newlines [c] = (if c = CR then [LF] else [c])"
| "universal_newlines (c # d # s) =
     (if c = CR \<and> d = LF then LF # universal_newlines s
      else if c = CR then LF # universal_newlines (d # s)
      else c # universal_newlines (d # s))"

fun iter_lines :: "string \<Rightarrow> string list" where
  "iter_lines [] = []"
| "iter_lines (c # s) =
     (if c = LF then [LF] # iter_lines s
      else (case iter_lines s of [] \<Rightarrow> [[c]] | l # ls \<Rightarrow> (c # l) # ls))"

text \<open>\<open>open(path, 'r', encoding='utf-8')\<close> and the iteration over the file.\<close>

definition read_text_lines :: "fsnode \<Rightarrow> pyerror + string list" where
  "read_text_lines node =
     (case node of
        Dir _ \<Rightarrow> Inl IsADirectoryError
      | File readable writable c \<Rightarrow>
          if \<not> readable then Inl PermissionError
          else (case c of
                  Binary _ \<Rightarrow> Inl UnicodeDecodeError
                | Text s \<Rightarrow> Inr (iter_lines (universal_newlines s))))"

text \<open>Line 37: the set comprehension.\<close>

definition patterns_of_lines :: "string list \<Rightarrow> string set" where
  "patterns_of_lines ls =
     set (map strip (filter (\<lambda>line. strip line \<noteq> [] \<and> \<not> startswith line ''#'') ls))"

text \<open>
  What the program prints is kept as a list of events; a message keeps the values its
  f-string interpolates.
\<close>

datatype message =
    Starting
  | Project_directory string
  | Convert_to_txt bool
  | Empty_before bool
  | Auto_delete_timer real
  | Loaded_patterns nat
  | Copied_files nat
  | Converting
  | Error_reading_ignore pyerror
  | Success string "real option"
  | Scheduled_deletion string real
  | Automatically_deleted string
  | Deletion_error string pyerror

datatype event = Print message | Showinfo string message

text \<open>
  The state as one flow of control sees it: the entries of \<open>root_dir\<close> as its own operations
  leave them, what it printed itself, and the arguments of the deletion threads it started.
  A started thread runs beside the flow that started it; what the thread prints and deletes
  in the meantime is not part of this state.
\<close>

record world =
  fs_root :: entries
  stdout :: "event list"
  started_threads :: "(string \<times> real) list"

definition print :: "message \<Rightarrow> world \<Rightarrow> world" where
  "print m w = w\<lparr>stdout := stdout w @ [Print m]\<rparr>"

definition ignore_name :: string where
  "ignore_name = ''.takeoutignore''"

definition get_ignored_patterns :: "world \<Rightarrow> pyerror + (string set \<times> world)" where
  "get_ignored_patterns w =
     (case map_of (fs_root w) ignore_name of
        None \<Rightarrow> Inr ({}, w)
      | Some node \<Rightarrow>
          (case read_text_lines node of
             Inr ls \<Rightarrow> Inr (patterns_of_lines ls, w)
           | Inl e \<Rightarrow> Inr ({}, print (Error_reading_ignore e) w)))"

section \<open>The takeout directory\<close>

text \<open>
  The program creates, writes, renames and deletes only \<open>takeout_dir\<close> (the entry \<open>.takeout\<close>
  of \<open>root_dir\<close>) and entries directly inside it, so the operations of \<open>os\<close> and \<open>shutil\<close> are
  given for these places.
\<close>

definition takeout_name :: string where
  "takeout_name = ''.takeout''"

text \<open>A loop whose body may raise: the first error ends it.\<close>

fun for_each :: "('a \<Rightarrow> 's \<Rightarrow> pyerror + 's) \<Rightarrow> 'a list \<Rightarrow> 's \<Rightarrow> pyerror + 's" where
  "for_each body [] s = Inr s"
| "for_each body (x # xs) s =
     (case body x s of Inl e \<Rightarrow> Inl e | Inr s' \<Rightarrow> for_each body xs s')"

definition os_path_exists_takeout :: "entries \<Rightarrow> bool" where
  "os_path_exists_takeout es = (map_of es takeout_name \<noteq> None)"

definition shutil_rmtree_takeout :: "entries \<Rightarrow> pyerror + entries" where
  "shutil_rmtree_takeout es =
     (case map_of es takeout_name of
        None \<Rightarrow> Inl FileNotFoundError
      | Some (File _ _ _) \<Rightarrow> Inl NotADirectoryError
      | Some (Dir _) \<Rightarrow> Inr (AList.delete takeout_name es))"

definition os_makedirs_takeout :: "entries \<Rightarrow> pyerror + entries" where
  "os_makedirs_takeout es =
     (case map_of es takeout_name of
        None \<Rightarrow> Inr (es @ [(takeout_name, Dir [])])
      | Some _ \<Rightarrow> Inl FileExistsError)"

text \<open>An operation on the entries of \<open>takeout_dir\<close>, run inside \<open>root_dir\<close>.\<close>

definition in_takeout :: "(entries \<Rightarrow> pyerror + entries) \<Rightarrow> entries \<Rightarrow> pyerror + entries" where
  "in_takeout f es =
     (case map_of es takeout_name of
        None \<Rightarrow> Inl FileNotFoundError
      | Some (File _ _ _) \<Rightarrow> Inl NotADirectoryError
      | Some (Dir te) \<Rightarrow>
          (case f te of
             Inl e \<Rightarrow> Inl e
           | Inr te' \<Rightarrow> Inr (AList.update takeout_name (Dir te') es)))"

text \<open>Opening \<open>name\<close> in a directory for writing, and writing \<open>c\<close>: a new file is made readable
  and writable, a file that is there must be writable and keeps its permission bits.\<close>

definition write_file :: "string \<Rightarrow> content \<Rightarrow> entries \<Rightarrow> pyerror + entries" where
  "write_file name c te =
     (case map_of te name of
        None \<Rightarrow> Inr (te @ [(name, File True True c)])
      | Some (Dir _) \<Rightarrow> Inl IsADirectoryError
      | Some (File readable writable _) \<Rightarrow>
          if writable then Inr (AList.update name (File readable writable c) te)
          else Inl PermissionError)"

text \<open>\<open>shutil.copyfile\<close> and \<open>shutil.copystat\<close> into a directory: the content is written as
  above, then the file gets the permission bits of the source (which was readable).\<close>

definition copy_file_to :: "string \<Rightarrow> bool \<Rightarrow> content \<Rightarrow> entries \<Rightarrow> pyerror + entries" where
  "copy_file_to name writable c te =
     (case write_file name c te of
        Inl e \<Rightarrow> Inl e
      | Inr te' \<Rightarrow> Inr (AList.update name (File True writable c) te'))"

text \<open>
  \<open>shutil.copy2(src, os.path.join(takeout_dir, name))\<close>: the source is opened for reading
  first; a destination that is a directory receives the file under the source's base name;
  the copy has the content and the permission bits of the source.
\<close>

definition shutil_copy2 :: "path \<Rightarrow> string \<Rightarrow> entries \<Rightarrow> pyerror + entries" where
  "shutil_copy2 src name es =
     (case lookup_path es src of
        None \<Rightarrow> Inl FileNotFoundError
      | Some (Dir _) \<Rightarrow> Inl IsADirectoryError
      | Some (File readable writable c) \<Rightarrow>
          if \<not> readable then Inl PermissionError
          else in_takeout
                 (\<lambda>te. case map_of te name of
                          Some (Dir sub) \<Rightarrow>
                            (case copy_file_to (last src) writable c sub of
                               Inl e \<Rightarrow> Inl e
                             | Inr sub' \<Rightarrow> Inr (AList.update name (Dir sub') te))
                        | _ \<Rightarrow> copy_file_to name writable c te)
                 es)"

text \<open>\<open>os.rename\<close> of one entry of a directory to another name in it (POSIX: an existing
  destination of the same kind is replaced).\<close>

definition os_rename :: "string \<Rightarrow> string \<Rightarrow> entries \<Rightarrow> pyerror + entries" where
  "os_rename src dst te =
     (case map_of te src of
        None \<Rightarrow> Inl FileNotFoundError
      | Some node \<Rightarrow>
          if src = dst then Inr te
          else (case map_of te dst of
                  None \<Rightarrow> Inr (AList.delete src te @ [(dst, node)])
                | Some (File _ _ _) \<Rightarrow>
                    (case node of
                       File _ _ _ \<Rightarrow> Inr (AList.update dst node (AList.delete src te))
                     | Dir _ \<Rightarrow> Inl NotADirectoryError)
                | Some (Dir sub) \<Rightarrow>
                    (case node of
                       File _ _ _ \<Rightarrow> Inl IsADirectoryError
                     | Dir _ \<Rightarrow>
                         if sub = [] then Inr (AList.update dst node (AList.delete src te))
                         else Inl DirectoryNotEmpty)))"

definition os_listdir :: "entries \<Rightarrow> string list" where
  "os_listdir te = map fst te"

section \<open>The flattening copier (lines 87 to 98)\<close>

text \<open>Lines 94 and 95.\<close>

definition unique_name :: "path \<Rightarrow> string \<Rightarrow> string" where
  "unique_name file_path filename =
     (let relative_dir = os_path_relpath (os_path_dirname file_path)
      in str_replace os_sep (CHR ''_'') (os_path_join relative_dir filename))"

text \<open>Lines 89 to 97: what one item of \<open>file_paths\<close> copies.\<close>

definition copy_item :: "string \<times> path list \<Rightarrow> entries \<Rightarrow> pyerror + entries" where
  "copy_item item es =
     (case item of (filename, paths) \<Rightarrow>
        if length paths = 1 then shutil_copy2 (paths ! 0) filename es
        else for_each (\<lambda>file_path. shutil_copy2 file_path (unique_name file_path filename)) paths es)"

definition copy_files :: "file_index \<Rightarrow> entries \<Rightarrow> pyerror + entries" where
  "copy_files file_paths es = for_each copy_item file_paths es"

text \<open>\<open>copied_files_count\<close> grows by one with each copy, so after the loop it is the number of
  paths in \<open>file_paths\<close>.\<close>

definition copied_files_count :: "file_index \<Rightarrow> nat" where
  "copied_files_count file_paths = sum_list (map (\<lambda>item. length (snd item)) file_paths)"

section \<open>The extension normalizer (lines 100 to 104)\<close>

definition convert_names :: "entries \<Rightarrow> pyerror + entries" where
  "convert_names te =
     for_each (\<lambda>item_name te'.
                 if item_name \<noteq> guide_name then os_rename item_name (item_name @ ''.txt'') te'
                 else Inr te')
              (os_listdir te) te"

section \<open>The structure guide file and the whole run\<close>

text \<open>Line 75 opens (and empties) the guide before the second walk starts; the walk then
  writes into it.\<close>

definition write_structure_guide :: "string \<Rightarrow> string set \<Rightarrow> entries \<Rightarrow> pyerror + entries" where
  "write_structure_guide root_dir ignore_patterns es =
     (case in_takeout (write_file guide_name (Text [])) es of
        Inl e \<Rightarrow> Inl e
      | Inr es1 \<Rightarrow>
          in_takeout
            (write_file guide_name (Text (structure_guide_text root_dir ignore_patterns es1)))
            es1)"

text \<open>
  \<open>time.sleep(delay)\<close>: the delay is first turned into the clock's signed 64-bit count of
  nanoseconds, which raises \<open>OverflowError\<close> when it does not fit; a negative delay then
  raises \<open>ValueError\<close>.  The delay is a real number here (the rounding of floats at the
  bounds and the values \<open>inf\<close> and \<open>nan\<close> are not modelled), and neither is the waiting.
\<close>

definition time_sleep :: "real \<Rightarrow> pyerror + unit" where
  "time_sleep delay =
     (if delay * 10 ^ 9 < - (2 ^ 63) \<or> 2 ^ 63 \<le> delay * 10 ^ 9 then Inl OverflowError
      else if delay < 0 then Inl ValueError
      else Inr ())"

text \<open>
  Lines 18 to 27, run by the deletion thread.  Lines 20 and 21 stand before the \<open>try\<close>, so an
  error of \<open>time.sleep\<close> leaves the function.
\<close>

definition delete_folder_after_delay :: "string \<Rightarrow> real \<Rightarrow> world \<Rightarrow> pyerror + world" where
  "delete_folder_after_delay path delay w =
     (let w1 = print (Scheduled_deletion path delay) w
      in case time_sleep delay of
           Inl e \<Rightarrow> Inl e
         | Inr _ \<Rightarrow>
             (case (if os_path_exists_takeout (fs_root w1)
                    then (case shutil_rmtree_takeout (fs_root w1) of
                            Inl e \<Rightarrow> Inl e
                          | Inr es \<Rightarrow>
                              Inr (print (Automatically_deleted path) (w1\<lparr>fs_root := es\<rparr>)))
                    else Inr w1) of
                Inr w2 \<Rightarrow> Inr w2
              | Inl e \<Rightarrow> Inr (print (Deletion_error path e) w1)))"

text \<open>Lines 52 to 57.\<close>

definition prepare_takeout :: "bool \<Rightarrow> entries \<Rightarrow> pyerror + entries" where
  "prepare_takeout empty_before es =
     (case (if empty_before \<and> os_path_exists_takeout es then shutil_rmtree_takeout es
            else Inr es) of
        Inl e \<Rightarrow> Inl e
      | Inr es1 \<Rightarrow>
          if \<not> os_path_exists_takeout es1 then os_makedirs_takeout es1 else Inr es1)"

text \<open>Lines 106 to 120: \<open>threading.Thread(...).start()\<close> records the arguments of the thread
  that was started, and the main flow goes on to report.  The thread runs from then on, beside
  lines 115 to 120; its effects are not in the state this function returns.\<close>

definition report_success :: "string \<Rightarrow> real \<Rightarrow> bool \<Rightarrow> world \<Rightarrow> world" where
  "report_success takeout_dir delete_timer use_gui w =
     (let success_message = Success takeout_dir (if delete_timer > 0 then Some delete_timer else None);
          w1 = (if delete_timer > 0
                then w\<lparr>started_threads := started_threads w @ [(takeout_dir, delete_timer)]\<rparr>
                else w)
      in w1\<lparr>stdout := stdout w1 @
               [if use_gui then Showinfo ''Success'' success_message else Print success_message]\<rparr>)"

definition set_fs :: "world \<Rightarrow> entries \<Rightarrow> world" where
  "set_fs w es = w\<lparr>fs_root := es\<rparr>"

definition create_takeout ::
  "string \<Rightarrow> bool \<Rightarrow> bool \<Rightarrow> real \<Rightarrow> bool \<Rightarrow> world \<Rightarrow> pyerror + world"
where
  "create_takeout root_dir convert_to_txt empty_before delete_timer use_gui w0 =
     (let w1 = print (Auto_delete_timer delete_timer)
                 (print (Empty_before empty_before)
                   (print (Convert_to_txt convert_to_txt)
                     (print (Project_directory root_dir) (print Starting w0))));
          takeout_dir = os_path_join root_dir takeout_name
      in case prepare_takeout empty_before (fs_root w1) of
           Inl e \<Rightarrow> Inl e
         | Inr es2 \<Rightarrow>
        (case get_ignored_patterns (set_fs w1 es2) of
           Inl e \<Rightarrow> Inl e
         | Inr (ignore_patterns, w3) \<Rightarrow>
        (let w4 = print (Loaded_patterns (card ignore_patterns)) w3;
             file_paths = build_file_paths ignore_patterns (fs_root w4)
         in case write_structure_guide root_dir ignore_patterns (fs_root w4) of
              Inl e \<Rightarrow> Inl e
            | Inr es5 \<Rightarrow>
           (case copy_files file_paths es5 of
              Inl e \<Rightarrow> Inl e
            | Inr es6 \<Rightarrow>
           (let w6 = print (Copied_files (copied_files_count file_paths)) (set_fs w4 es6)
            in case (if convert_to_txt
                     then (let w6' = print Converting w6
                           in case in_takeout convert_names (fs_root w6') of
                                Inl e \<Rightarrow> Inl e
                              | Inr es7 \<Rightarrow> Inr (set_fs w6' es7))
                     else Inr w6) of
                 Inl e \<Rightarrow> Inl e
               | Inr w7 \<Rightarrow> Inr (report_success takeout_dir delete_timer use_gui w7))))))"

section \<open>Notions the properties are stated with\<close>

text \<open>All paths held by a \<open>file_paths\<close> dict.\<close>

definition index_paths :: "file_index \<Rightarrow> path set" where
  "index_paths idx = (\<Union>item \<in> set idx. set (snd item))"

text \<open>The patterns as claim C7 words them: the comment test is made on the trimmed line.\<close>

definition spec_patterns_of_lines :: "string list \<Rightarrow> string set" where
  "spec_patterns_of_lines ls =
     set (map strip (filter (\<lambda>line. strip line \<noteq> [] \<and> \<not> startswith (strip line) ''#'') ls))"

text \<open>The lines of the structure guide as claim C5 words them: four spaces per level of depth,
  the files of a directory sorted and one level deeper.\<close>

definition spec_dir_line :: "nat \<Rightarrow> string \<Rightarrow> string" where
  "spec_dir_line depth dirname = replicate (4 * depth) (CHR '' '') @ dirname @ ''/'' @ [LF]"

definition spec_file_line :: "nat \<Rightarrow> string \<Rightarrow> string" where
  "spec_file_line depth file = replicate (4 * (depth + 1)) (CHR '' '') @ file @ [LF]"

definition spec_guide_block :: "string \<Rightarrow> string set \<Rightarrow> path \<times> string list \<times> string list \<Rightarrow> string" where
  "spec_guide_block root_dir ignore_patterns t =
     (case t of (dirpath, dirnames, filenames) \<Rightarrow>
        spec_dir_line (length dirpath)
          (if dirpath = [] then os_path_basename root_dir else last dirpath) @
        concat (map (spec_file_line (length dirpath))
                    (sort (filter (\<lambda>file. \<not> file_ignored ignore_patterns file) filenames))))"

text \<open>The entries of \<open>takeout_dir\<close> (none when it is no directory).\<close>

definition takeout_entries :: "entries \<Rightarrow> entries" where
  "takeout_entries es = (case map_of es takeout_name of Some (Dir te) \<Rightarrow> te | _ \<Rightarrow> [])"

text \<open>A directory that holds writable regular files only, as a fresh \<open>takeout_dir\<close> does.\<close>

definition plain_files :: "entries \<Rightarrow> bool" where
  "plain_files te =
     list_all (\<lambda>e. case snd e of File readable writable _ \<Rightarrow> writable | Dir _ \<Rightarrow> False) te"

text \<open>A directory that holds regular files only.\<close>

definition regular_files :: "entries \<Rightarrow> bool" where
  "regular_files te = list_all (\<lambda>e. case snd e of File _ _ _ \<Rightarrow> True | Dir _ \<Rightarrow> False) te"

text \<open>The calls of \<open>shutil.copy2\<close> that lines 88 to 97 make, in their order: the source and
  the name of the destination in \<open>takeout_dir\<close>.\<close>

definition copy_plan :: "file_index \<Rightarrow> (path \<times> string) list" where
  "copy_plan idx =
     concat (map (\<lambda>(filename, paths).
                    if length paths = 1 then [(paths ! 0, filename)]
                    else map (\<lambda>p. (p, unique_name p filename)) paths)
                 idx)"

text \<open>A path under \<open>root_dir\<close> that does not lead into \<open>takeout_dir\<close>.\<close>

definition outside_takeout :: "path \<Rightarrow> bool" where
  "outside_takeout p = (p \<noteq> [] \<and> hd p \<noteq> takeout_name)"

text \<open>The names of a relative path, put together with underscores.\<close>

definition underscore_joined :: "string list \<Rightarrow> string" where
  "underscore_joined ns = hd ns @ concat (map (\<lambda>n. CHR ''_'' # n) (tl ns))"

text \<open>The name claim C4 gives an entry after the normalization pass.\<close>

definition suffixed :: "string \<Rightarrow> string" where
  "suffixed n = (if n = guide_name then n else n @ ''.txt'')"

text \<open>\<open>takeout_dir\<close> after the normalization pass as claim C4 words it: every entry but the guide
  under its name with \<open>.txt\<close> appended.\<close>

definition spec_converted :: "entries \<Rightarrow> entries" where
  "spec_converted te = map (\<lambda>(n, node). (suffixed n, node)) te"

text \<open>The body of the loop of lines 102 to 104.\<close>

definition convert_item :: "string \<Rightarrow> entries \<Rightarrow> pyerror + entries" where
  "convert_item item_name te' =
     (if item_name \<noteq> guide_name then os_rename item_name (item_name @ ''.txt'') te' else Inr te')"

section \<open>Example inputs\<close>

definition ex_project :: entries where
  "ex_project =
     [(''.git'', Dir [(''config'', File True True (Text ''g''))]),
      (''README.md'', File True True (Text ''r'')),
      (''notes'', File True True (Text ''n'')),
      (''src'', Dir [(''main.go'', File True True (Text ''m'')),
                     (''.takeout'', Dir [(''old.txt'', File True True (Text ''o''))]),
                     (''util.go'', File True True (Text ''u''))])]"

definition empty_world :: "entries \<Rightarrow> world" where
  "empty_world es = \<lparr>fs_root = es, stdout = [], started_threads = []\<rparr>"

definition ex_unreadable_ignore :: world where
  "ex_unreadable_ignore = empty_world [(''.takeoutignore'', File False False (Text (''*.md'' @ [LF])))]"

definition ex_binary_ignore :: world where
  "ex_binary_ignore = empty_world [(''.takeoutignore'', File True True (Binary ''xx''))]"

definition ex_indented_comment :: world where
  "ex_indented_comment = empty_world [(''.takeoutignore'', File True True (Text (''  #x'' @ [LF])))]"

definition ex_ignore_file :: world where
  "ex_ignore_file = empty_world [(''.takeoutignore'',
      File True True (Text (concat (map (\<lambda>l. l @ [LF])
        [''# build output'', ''  '', '' *.md '', ''dist/'']) @ ''notes'')))]"

text \<open>The tree of the collision scenario: \<open>a/x.txt\<close> and \<open>b/x.txt\<close>, and its structure guide.\<close>

definition ex_two :: entries where
  "ex_two =
     [(''a'', Dir [(''x.txt'', File True True (Text ''A''))]),
      (''b'', Dir [(''x.txt'', File True True (Text ''B''))])]"

definition guide_two :: string where
  "guide_two =
     ''Project Structure for: p'' @ [LF, LF] @ ''p/'' @ [LF] @
     ''    a/'' @ [LF] @ ''        x.txt'' @ [LF] @
     ''    b/'' @ [LF] @ ''        x.txt'' @ [LF]"

text \<open>The state in which \<open>create_takeout('/p', False, True, 0)\<close> returns on it.\<close>

definition ex_two_after_plain_run :: world where
  "ex_two_after_plain_run =
     \<lparr>fs_root = ex_two @
        [(''.takeout'', Dir [(''structure_guide.txt'', File True True (Text guide_two)),
                             (''a_x.txt'', File True True (Text ''A'')),
                             (''b_x.txt'', File True True (Text ''B''))])],
      stdout = [Print Starting, Print (Project_directory ''/p''), Print (Convert_to_txt False),
                Print (Empty_before True), Print (Auto_delete_timer 0), Print (Loaded_patterns 0),
                Print (Copied_files 2), Print (Success ''/p/.takeout'' None)],
      started_threads = []\<rparr>"

text \<open>A state in which \<open>.takeout\<close> is a regular file, so that \<open>shutil.rmtree\<close> fails.\<close>

definition ex_takeout_is_file :: world where
  "ex_takeout_is_file = empty_world [(''.takeout'', File True True (Text ''t''))]"

text \<open>The structure guide of \<open>ex_project\<close> at \<open>/home/u/proj\<close> with the pattern \<open>*.md\<close>.\<close>

definition ex_guide :: string where
  "ex_guide =
     ''Project Structure for: proj'' @ [LF] @ [LF] @
     ''proj/'' @ [LF] @
     ''    notes'' @ [LF] @
     ''    src/'' @ [LF] @
     ''        main.go'' @ [LF] @
     ''        util.go'' @ [LF]"

text \<open>\<open>ex_project\<close> with an empty \<open>takeout_dir\<close>, and after the guide is written into it.\<close>

definition ex_project_prepared :: entries where
  "ex_project_prepared = ex_project @ [(''.takeout'', Dir [])]"

definition ex_project_guided :: entries where
  "ex_project_guided =
     ex_project @ [(''.takeout'', Dir [(''structure_guide.txt'', File True True (Text ex_guide))])]"

text \<open>The collision scenario after lines 52 to 57, after the guide is written (with text \<open>g\<close>),
  and after the copier has run.\<close>

definition ex_two_prepared :: entries where
  "ex_two_prepared = ex_two @ [(''.takeout'', Dir [])]"

definition ex_two_guided :: "string \<Rightarrow> entries" where
  "ex_two_guided g = ex_two @ [(''.takeout'', Dir [(''structure_guide.txt'', File True True (Text g))])]"

definition ex_two_copied :: "string \<Rightarrow> entries" where
  "ex_two_copied g =
     ex_two @ [(''.takeout'', Dir [(''structure_guide.txt'', File True True (Text g)),
                                   (''a_x.txt'', File True True (Text ''A'')),
                                   (''b_x.txt'', File True True (Text ''B''))])]"

text \<open>A \<open>takeout_dir\<close> before and after the normalization pass.\<close>

definition ex_plain_takeout :: entries where
  "ex_plain_takeout =
     [(''structure_guide.txt'', File True True (Text ''g'')),
      (''readme.md'', File True True (Text ''r'')),
      (''a_x.txt'', File True True (Text ''A''))]"

definition ex_plain_converted :: entries where
  "ex_plain_converted =
     [(''structure_guide.txt'', File True True (Text ''g'')),
      (''readme.md.txt'', File True True (Text ''r'')),
      (''a_x.txt.txt'', File True True (Text ''A''))]"

text \<open>A tree with the files \<open>a\<close> and \<open>a.txt\<close>: its guide, \<open>takeout_dir\<close> after the copier, and the
  states after a run with \<open>convert_to_txt\<close> and after one without.\<close>

definition ex_clash :: entries where
  "ex_clash = [(''a'', File True True (Text ''A'')), (''a.txt'', File True True (Text ''B''))]"

definition ex_clash_guide :: string where
  "ex_clash_guide =
     ''Project Structure for: p'' @ [LF, LF] @ ''p/'' @ [LF] @
     ''    a'' @ [LF] @ ''    a.txt'' @ [LF]"

definition ex_clash_takeout :: entries where
  "ex_clash_takeout =
     [(''structure_guide.txt'', File True True (Text ex_clash_guide)),
      (''a'', File True True (Text ''A'')),
      (''a.txt'', File True True (Text ''B''))]"

definition ex_clash_after :: world where
  "ex_clash_after =
     \<lparr>fs_root = ex_clash @
        [(''.takeout'', Dir [(''structure_guide.txt'', File True True (Text ex_clash_guide)),
                             (''a.txt.txt'', File True True (Text ''A''))])],
      stdout = [Print Starting, Print (Project_directory ''/p''), Print (Convert_to_txt True),
                Print (Empty_before True), Print (Auto_delete_timer 0), Print (Loaded_patterns 0),
                Print (Copied_files 2), Print Converting, Print (Success ''/p/.takeout'' None)],
      started_threads = []\<rparr>"

definition ex_clash_copied :: world where
  "ex_clash_copied =
     \<lparr>fs_root = ex_clash @ [(''.takeout'', Dir ex_clash_takeout)],
      stdout = [Print Starting, Print (Project_directory ''/p''), Print (Convert_to_txt False),
                Print (Empty_before True), Print (Auto_delete_timer 0), Print (Loaded_patterns 0),
                Print (Copied_files 2), Print (Success ''/p/.takeout'' None)],
      started_threads = []\<rparr>"

text \<open>A tree with a file \<open>structure_guide.txt\<close> of its own: after the guide is written (with
  text \<open>g\<close>), after the copier, and after a run with \<open>convert_to_txt\<close>.\<close>

definition ex_with_guide :: entries where
  "ex_with_guide =
     [(''structure_guide.txt'', File True True (Text ''mine'')),
      (''main.py'', File True True (Text ''m''))]"

definition ex_with_guide_written :: entries where
  "ex_with_guide_written =
     ex_with_guide @ [(''.takeout'', Dir [(''structure_guide.txt'', File True True (Text ''g''))])]"

definition ex_with_guide_copied :: entries where
  "ex_with_guide_copied =
     ex_with_guide @ [(''.takeout'', Dir [(''structure_guide.txt'', File True True (Text ''mine'')),
                                          (''main.py'', File True True (Text ''m''))])]"

definition ex_with_guide_after :: world where
  "ex_with_guide_after =
     \<lparr>fs_root = ex_with_guide @
        [(''.takeout'', Dir [(''structure_guide.txt'', File True True (Text ''mine'')),
                             (''main.py.txt'', File True True (Text ''m''))])],
      stdout = [Print Starting, Print (Project_directory ''/p''), Print (Convert_to_txt True),
                Print (Empty_before True), Print (Auto_delete_timer 0), Print (Loaded_patterns 0),
                Print (Copied_files 2), Print Converting, Print (Success ''/p/.takeout'' None)],
      started_threads = []\<rparr>"

text \<open>Two trees in which something else ends up as \<open>structure_guide.txt\<close>: a file
  \<open>structure_guide\<close> (renamed by the normalization pass), and a collision group whose unique
  name is \<open>structure_guide.txt\<close>; each with the state after a run.\<close>

definition ex_two_guides :: entries where
  "ex_two_guides =
     [(''structure_guide.txt'', File True True (Text ''mine'')),
      (''structure_guide'', File True True (Text ''other''))]"

definition ex_two_guides_after :: world where
  "ex_two_guides_after =
     \<lparr>fs_root = ex_two_guides @
        [(''.takeout'', Dir [(''structure_guide.txt'', File True True (Text ''other''))])],
      stdout = [Print Starting, Print (Project_directory ''/p''), Print (Convert_to_txt True),
                Print (Empty_before True), Print (Auto_delete_timer 0), Print (Loaded_patterns 0),
                Print (Copied_files 2), Print Converting, Print (Success ''/p/.takeout'' None)],
      started_threads = []\<rparr>"

definition ex_guide_collision :: entries where
  "ex_guide_collision =
     [(''structure_guide.txt'', File True True (Text ''mine'')),
      (''structure'', Dir [(''guide.txt'', File True True (Text ''B''))]),
      (''other'', Dir [(''guide.txt'', File True True (Text ''C''))])]"

definition ex_guide_collision_after :: world where
  "ex_guide_collision_after =
     \<lparr>fs_root = ex_guide_collision @
        [(''.takeout'', Dir [(''structure_guide.txt'', File True True (Text ''B'')),
                             (''other_guide.txt'', File True True (Text ''C''))])],
      stdout = [Print Starting, Print (Project_directory ''/p''), Print (Convert_to_txt False),
                Print (Empty_before True), Print (Auto_delete_timer 0), Print (Loaded_patterns 0),
                Print (Copied_files 3), Print (Success ''/p/.takeout'' None)],
      started_threads = []\<rparr>"

text \<open>The tree of the scenario with \<open>src/main.go\<close>, \<open>src/util.go\<close>, \<open>README.md\<close> and the pattern
  \<open>*.md\<close>, its guide, and the state after a run.\<close>

definition ex_scenario :: entries where
  "ex_scenario =
     [(''src'', Dir [(''main.go'', File True True (Text ''m'')), (''util.go'', File True True (Text ''u''))]),
      (''README.md'', File True True (Text ''r'')),
      (''.takeoutignore'', File True True (Text (''*.md'' @ [LF])))]"

definition ex_scenario_guide :: string where
  "ex_scenario_guide =
     ''Project Structure for: p'' @ [LF, LF] @ ''p/'' @ [LF] @
     ''    .takeoutignore'' @ [LF] @
     ''    src/'' @ [LF] @ ''        main.go'' @ [LF] @ ''        util.go'' @ [LF]"

definition ex_scenario_after :: world where
  "ex_scenario_after =
     \<lparr>fs_root = ex_scenario @
        [(''.takeout'', Dir [(''structure_guide.txt'', File True True (Text ex_scenario_guide)),
                             (''.takeoutignore'', File True True (Text (''*.md'' @ [LF]))),
                             (''main.go'', File True True (Text ''m'')),
                             (''util.go'', File True True (Text ''u''))])],
      stdout = [Print Starting, Print (Project_directory ''/p''), Print (Convert_to_txt False),
                Print (Empty_before True), Print (Auto_delete_timer 0), Print (Loaded_patterns 1),
                Print (Copied_files 3), Print (Success ''/p/.takeout'' None)],
      started_threads = []\<rparr>"

text \<open>A tree in which the read-only file \<open>a_x.txt\<close> of \<open>root_dir\<close> has the unique name of
  \<open>a/x.txt\<close>.\<close>

definition ex_readonly_collision :: entries where
  "ex_readonly_collision =
     [(''b'', Dir [(''x.txt'', File True True (Text ''B''))]),
      (''a_x.txt'', File True False (Text ''R'')),
      (''a'', Dir [(''x.txt'', File True True (Text ''A''))])]"

section \<open>Auxiliary facts\<close>

lemma os_walk_dirpath:
  assumes prune: "\<And>ds d. d \<in> set (prune ds) \<Longrightarrow> d \<noteq> ''.git'' \<and> d \<noteq> ''.takeout''"
  shows "t \<in> set (os_walk prune dirpath es) \<Longrightarrow>
   \<exists>rest. fst t = dirpath @ rest \<and> ''.git'' \<notin> set rest \<and> ''.takeout'' \<notin> set rest"
  using prune
proof (induction prune dirpath es arbitrary: t rule: os_walk.induct)
  case (1 prune dirpath es)
  from "1.prems"(1) have
    "t = (dirpath, prune (dirnames_of es), filenames_of es) \<or>
     (\<exists>d \<in> set (prune (dirnames_of es)). \<exists>sub. lookup_dir es d = Some sub \<and>
        t \<in> set (os_walk prune (dirpath @ [d]) sub))"
    by (subst (asm) os_walk.simps) (auto split: option.splits)
  then show ?case
  proof
    assume "t = (dirpath, prune (dirnames_of es), filenames_of es)"
    then show ?thesis by simp
  next
    assume "\<exists>d \<in> set (prune (dirnames_of es)). \<exists>sub. lookup_dir es d = Some sub \<and>
        t \<in> set (os_walk prune (dirpath @ [d]) sub)"
    then obtain d sub where d: "d \<in> set (prune (dirnames_of es))"
      and sub: "lookup_dir es d = Some sub"
      and t: "t \<in> set (os_walk prune (dirpath @ [d]) sub)"
      by blast
    note ih = "1.IH" [OF d sub]
    from ih t "1.prems"(2) obtain rest where
      r: "fst t = (dirpath @ [d]) @ rest" "''.git'' \<notin> set rest" "''.takeout'' \<notin> set rest"
      by blast
    from d "1.prems"(2) have "d \<noteq> ''.git''" "d \<noteq> ''.takeout''"
      by blast+
    with r have "fst t = dirpath @ (d # rest) \<and> ''.git'' \<notin> set (d # rest) \<and> ''.takeout'' \<notin> set (d # rest)"
      by simp
    then show ?thesis by blast
  qed
qed

lemma prune_dirnames_never:
  "d \<in> set (prune_dirnames pats ds) \<Longrightarrow> d \<noteq> ''.git'' \<and> d \<noteq> ''.takeout''"
  by (auto simp: prune_dirnames_def)

lemma index_paths_Nil [simp]: "index_paths [] = {}"
  by (simp add: index_paths_def)

lemma index_paths_append:
  "index_paths (index_append filename fp idx) = insert fp (index_paths idx)"
  by (induction filename fp idx rule: index_append.induct) (auto simp: index_paths_def)

lemma index_keys_append:
  "fst ` set (index_append filename fp idx) = insert filename (fst ` set idx)"
  by (induction filename fp idx rule: index_append.induct) auto

lemma index_paths_filenames:
  "index_paths (index_filenames pats dirpath filenames idx) =
   index_paths idx \<union> {dirpath @ [f] | f. f \<in> set filenames \<and> \<not> file_ignored pats f}"
  unfolding index_filenames_def
  by (induction filenames arbitrary: idx) (auto simp: index_paths_append)

lemma index_keys_filenames:
  "fst ` set (index_filenames pats dirpath filenames idx) =
   fst ` set idx \<union> {f \<in> set filenames. \<not> file_ignored pats f}"
  unfolding index_filenames_def
  by (induction filenames arbitrary: idx) (auto simp: index_keys_append)

lemma index_paths_fold:
  "index_paths (fold (\<lambda>(dirpath, dirnames, filenames) acc. index_filenames pats dirpath filenames acc) ts idx) =
   index_paths idx \<union> {dirpath @ [f] | dirpath dirnames filenames f. (dirpath, dirnames, filenames) \<in> set ts \<and> f \<in> set filenames \<and> \<not> file_ignored pats f}"
proof (induction ts arbitrary: idx)
  case Nil
  then show ?case by simp
next
  case (Cons t ts)
  obtain dp dn fn where t: "t = (dp, dn, fn)" by (cases t)
  show ?case unfolding t
    by (simp add: Cons.IH index_paths_filenames) blast
qed

lemma index_keys_fold:
  "fst ` set (fold (\<lambda>(dirpath, dirnames, filenames) acc. index_filenames pats dirpath filenames acc) ts idx) =
   fst ` set idx \<union> {f. \<exists>dirpath dirnames filenames. (dirpath, dirnames, filenames) \<in> set ts \<and> f \<in> set filenames \<and> \<not> file_ignored pats f}"
proof (induction ts arbitrary: idx)
  case Nil
  then show ?case by simp
next
  case (Cons t ts)
  obtain dp dn fn where t: "t = (dp, dn, fn)" by (cases t)
  show ?case unfolding t
    by (simp add: Cons.IH index_keys_filenames) blast
qed

lemma build_file_paths_paths:
  "index_paths (build_file_paths pats es) =
   {dirpath @ [f] | dirpath dirnames filenames f.
      (dirpath, dirnames, filenames) \<in> set (os_walk (prune_dirnames pats) [] es) \<and>
      f \<in> set filenames \<and> \<not> file_ignored pats f}"
  by (simp add: build_file_paths_def index_paths_fold)

lemma build_file_paths_keys:
  "fst ` set (build_file_paths pats es) =
   {f. \<exists>dirpath dirnames filenames.
      (dirpath, dirnames, filenames) \<in> set (os_walk (prune_dirnames pats) [] es) \<and>
      f \<in> set filenames \<and> \<not> file_ignored pats f}"
  by (simp add: build_file_paths_def index_keys_fold)


lemma endswith_append: "endswith (stem @ suffix) suffix"
  by (simp add: endswith_def)

section \<open>C1: \<open>.git\<close> and \<open>.takeout\<close> are never entered\<close>

text \<open>
  C1.  Whatever the ignore patterns are, the walk never visits a directory that is named
  \<open>.git\<close> or \<open>.takeout\<close> or lies below one, at any depth: no visited directory has such a name
  on its path, and no path of \<open>file_paths\<close> (the only files that are copied) has one among its
  directories.  The structure guide is written from the visited directories alone.
\<close>

theorem C1_git_and_takeout_pruned:
  "(\<forall>t \<in> set (os_walk (prune_dirnames ignore_patterns) [] es).
      ''.git'' \<notin> set (fst t) \<and> ''.takeout'' \<notin> set (fst t)) \<and>
   (\<forall>p \<in> index_paths (build_file_paths ignore_patterns es).
      ''.git'' \<notin> set (os_path_dirname p) \<and> ''.takeout'' \<notin> set (os_path_dirname p))"
proof -
  have walk: "''.git'' \<notin> set (fst t) \<and> ''.takeout'' \<notin> set (fst t)"
    if "t \<in> set (os_walk (prune_dirnames ignore_patterns) [] es)" for t
    using os_walk_dirpath [OF prune_dirnames_never that] by auto
  have "''.git'' \<notin> set (os_path_dirname p) \<and> ''.takeout'' \<notin> set (os_path_dirname p)"
    if "p \<in> index_paths (build_file_paths ignore_patterns es)" for p
  proof -
    from that obtain dirpath dirnames filenames f where
      "p = dirpath @ [f]"
      "(dirpath, dirnames, filenames) \<in> set (os_walk (prune_dirnames ignore_patterns) [] es)"
      unfolding build_file_paths_paths by blast
    with walk [of "(dirpath, dirnames, filenames)"] show ?thesis
      by (simp add: os_path_dirname_def)
  qed
  with walk show ?thesis by blast
qed

theorem C1_witness:
  "([''src''], [], [''main.go'', ''util.go'']) \<in> set (os_walk (prune_dirnames {''x/''}) [] ex_project) \<and>
   ''.git'' \<notin> set (fst ([''src''], [] :: string list, [''main.go'', ''util.go''])) \<and>
   [''src'', ''main.go''] \<in> index_paths (build_file_paths {''x/''} ex_project) \<and>
   [''.git'', ''config''] \<notin> index_paths (build_file_paths {''x/''} ex_project) \<and>
   [''src'', ''.takeout'', ''old.txt''] \<notin> index_paths (build_file_paths {''x/''} ex_project)"
proof -
  have a: "([''src''], [], [''main.go'', ''util.go'']) \<in> set (os_walk (prune_dirnames {''x/''}) [] ex_project)"
    by code_simp
  have b: "[''src'', ''main.go''] \<in> index_paths (build_file_paths {''x/''} ex_project)"
    by code_simp
  note c = C1_git_and_takeout_pruned [of "{''x/''}" ex_project]
  from c a have "''.git'' \<notin> set (fst ([''src''], [] :: string list, [''main.go'', ''util.go'']))"
    by blast
  moreover from c have "[''.git'', ''config''] \<notin> index_paths (build_file_paths {''x/''} ex_project)"
    by (auto simp: os_path_dirname_def)
  moreover from c have "[''src'', ''.takeout'', ''old.txt''] \<notin> index_paths (build_file_paths {''x/''} ex_project)"
    by (auto simp: os_path_dirname_def)
  ultimately show ?thesis using a b by blast
qed

section \<open>C2: ignored files are in neither the index nor the guide\<close>

text \<open>
  C2.  A file whose name is a pattern of the ignore set, or ends in \<open>.ext\<close> while \<open>*.ext\<close> is a
  pattern, is no key of \<open>file_paths\<close>, is the last name of none of its paths, and gets no
  file line in the structure guide, whatever directory of the tree it is in.
\<close>

theorem C2_ignored_files_excluded:
  assumes "filename \<in> ignore_patterns \<or>
           (\<exists>ext stem. ''*.'' @ ext \<in> ignore_patterns \<and> filename = stem @ ''.'' @ ext)"
  shows "filename \<notin> fst ` set (build_file_paths ignore_patterns es) \<and>
         (\<forall>p \<in> index_paths (build_file_paths ignore_patterns es). last p \<noteq> filename) \<and>
         (\<forall>files. filename \<notin> set (listed_files ignore_patterns files))"
proof -
  have ign: "file_ignored ignore_patterns filename"
    using assms
  proof
    assume "filename \<in> ignore_patterns"
    then show ?thesis by (simp add: file_ignored_def)
  next
    assume "\<exists>ext stem. ''*.'' @ ext \<in> ignore_patterns \<and> filename = stem @ ''.'' @ ext"
    then obtain ext stem where p: "''*.'' @ ext \<in> ignore_patterns" and f: "filename = stem @ ''.'' @ ext"
      by blast
    have "startswith (''*.'' @ ext) ''*.''" by (simp add: startswith_def)
    moreover have "endswith filename (drop 1 (''*.'' @ ext))"
      unfolding f using endswith_append [of stem "''.'' @ ext"] by simp
    ultimately show ?thesis using p unfolding file_ignored_def by blast
  qed
  have "filename \<notin> fst ` set (build_file_paths ignore_patterns es)"
    unfolding build_file_paths_keys using ign by blast
  moreover have "last p \<noteq> filename" if "p \<in> index_paths (build_file_paths ignore_patterns es)" for p
    using that ign unfolding build_file_paths_paths by auto
  moreover have "filename \<notin> set (listed_files ignore_patterns files)" for files
    using ign by (simp add: listed_files_def)
  ultimately show ?thesis by blast
qed

theorem C2_witness:
  "''notes'' \<notin> fst ` set (build_file_paths {''notes'', ''*.md''} ex_project) \<and>
   ''README.md'' \<notin> fst ` set (build_file_paths {''notes'', ''*.md''} ex_project) \<and>
   ''README.md'' \<notin> set (listed_files {''notes'', ''*.md''} [''notes'', ''README.md'']) \<and>
   fst ` set (build_file_paths {''notes'', ''*.md''} ex_project) = {''main.go'', ''util.go''}"
proof -
  have 1: "''notes'' \<in> {''notes'', ''*.md''} \<or>
           (\<exists>ext stem. ''*.'' @ ext \<in> {''notes'', ''*.md''} \<and> ''notes'' = stem @ ''.'' @ ext)"
    by simp
  have "''*.'' @ ''md'' \<in> {''notes'', ''*.md''} \<and> ''README.md'' = ''README'' @ ''.'' @ ''md''"
    by simp
  then have 2: "''README.md'' \<in> {''notes'', ''*.md''} \<or>
           (\<exists>ext stem. ''*.'' @ ext \<in> {''notes'', ''*.md''} \<and> ''README.md'' = stem @ ''.'' @ ext)"
    by blast
  have 3: "fst ` set (build_file_paths {''notes'', ''*.md''} ex_project) = {''main.go'', ''util.go''}"
    by code_simp
  from C2_ignored_files_excluded [OF 1, of ex_project] C2_ignored_files_excluded [OF 2, of ex_project] 3
  show ?thesis by blast
qed

section \<open>C8: the unique name of a file directly in \<open>root_dir\<close>\<close>

text \<open>
  C8.  For a file directly in \<open>root_dir\<close> the relative directory is \<open>.\<close>, and the unique name
  the copier builds for it in a collision group is \<open>._\<close> followed by the file name.
\<close>

theorem C8_root_level_unique_name:
  assumes "os_sep \<notin> set filename"
  shows "os_path_relpath (os_path_dirname [filename]) = ''.'' \<and>
         unique_name [filename] filename = ''._'' @ filename"
proof -
  have "\<not> startswith filename [os_sep]"
    using assms by (cases filename) (auto simp: startswith_def)
  then have "os_path_join ''.'' filename = ''./'' @ filename"
    by (simp add: os_path_join_def endswith_def os_sep_def)
  moreover have "str_replace os_sep (CHR ''_'') filename = filename"
    using assms unfolding str_replace_def by (induction filename) auto
  ultimately show ?thesis
    by (simp add: unique_name_def os_path_relpath_def os_path_dirname_def str_replace_def os_sep_def)
qed

theorem C8_witness:
  "os_sep \<notin> set ''x.txt'' \<and> unique_name [''x.txt''] ''x.txt'' = ''._x.txt''"
proof -
  have h: "os_sep \<notin> set ''x.txt''" by (simp add: os_sep_def)
  from C8_root_level_unique_name [OF h] h show ?thesis by simp
qed

lemma universal_newlines_id: "CR \<notin> set s \<Longrightarrow> universal_newlines s = s"
  by (induction s rule: universal_newlines.induct) auto

lemma iter_lines_last: "LF \<notin> set t \<Longrightarrow> iter_lines t = (if t = [] then [] else [t])"
  by (induction t) (auto split: list.splits)

lemma iter_lines_line: "LF \<notin> set l \<Longrightarrow> iter_lines (l @ LF # s) = (l @ [LF]) # iter_lines s"
  by (induction l) auto

lemma iter_lines_lines:
  "\<forall>l \<in> set ls. LF \<notin> set l \<Longrightarrow> LF \<notin> set t \<Longrightarrow>
   iter_lines (concat (map (\<lambda>l. l @ [LF]) ls) @ t) =
   map (\<lambda>l. l @ [LF]) ls @ (if t = [] then [] else [t])"
  by (induction ls) (auto simp: iter_lines_line iter_lines_last)

lemma isspace_LF: "isspace LF"
  by (simp add: isspace_def LF_def)

lemma strip_line: "strip (l @ [LF]) = strip l"
proof (cases "\<forall>c \<in> set l. isspace c")
  case True
  then have a: "dropWhile isspace l = []"
    by (simp add: dropWhile_eq_Nil_conv)
  from True have b: "dropWhile isspace (l @ [LF]) = []"
    by (simp add: dropWhile_eq_Nil_conv isspace_LF)
  show ?thesis unfolding strip_def a b by simp
next
  case False
  then obtain c where "c \<in> set l" "\<not> isspace c" by blast
  then have b: "dropWhile isspace (l @ [LF]) = dropWhile isspace l @ [LF]"
    by (rule dropWhile_append1)
  show ?thesis unfolding strip_def b by (simp add: isspace_LF)
qed

lemma startswith_line: "startswith (l @ [LF]) ''#'' = startswith l ''#''"
  by (cases l) (auto simp: startswith_def LF_def)

lemma patterns_of_lines_set:
  "patterns_of_lines ls = {strip l | l. l \<in> set ls \<and> strip l \<noteq> [] \<and> \<not> startswith l ''#''}"
  by (auto simp: patterns_of_lines_def)

lemma strip_Nil: "strip [] = []"
  by (simp add: strip_def)

lemma patterns_of_file_lines:
  "patterns_of_lines (map (\<lambda>l. l @ [LF]) ls @ (if t = [] then [] else [t])) =
   {strip l | l. l \<in> set (ls @ [t]) \<and> strip l \<noteq> [] \<and> \<not> startswith l ''#''}"
  (is "?L = ?R")
proof (intro set_eqI iffI)
  fix p
  assume "p \<in> ?L"
  then obtain line where line: "line \<in> set (map (\<lambda>l. l @ [LF]) ls @ (if t = [] then [] else [t]))"
    and p: "p = strip line" "strip line \<noteq> []" "\<not> startswith line ''#''"
    unfolding patterns_of_lines_set by blast
  from line consider l where "l \<in> set ls" "line = l @ [LF]" | "line = t"
    by (auto split: if_splits)
  then show "p \<in> ?R"
  proof cases
    case 1
    with p have "p = strip l" "strip l \<noteq> []" "\<not> startswith l ''#''"
      by (simp_all add: strip_line startswith_line)
    with 1 show ?thesis by auto
  next
    case 2
    with p show ?thesis by auto
  qed
next
  fix p
  assume "p \<in> ?R"
  then obtain l where l: "l \<in> set (ls @ [t])"
    and p: "p = strip l" "strip l \<noteq> []" "\<not> startswith l ''#''"
    by blast
  from l consider "l \<in> set ls" | "l = t" by auto
  then show "p \<in> ?L"
  proof cases
    case 1
    then have "l @ [LF] \<in> set (map (\<lambda>l. l @ [LF]) ls @ (if t = [] then [] else [t]))"
      by simp
    moreover from p have "p = strip (l @ [LF])" "strip (l @ [LF]) \<noteq> []" "\<not> startswith (l @ [LF]) ''#''"
      by (simp_all add: strip_line startswith_line)
    ultimately show ?thesis unfolding patterns_of_lines_set by blast
  next
    case 2
    with p have "t \<noteq> []" by (auto simp: strip_Nil)
    with 2 have "l \<in> set (map (\<lambda>l. l @ [LF]) ls @ (if t = [] then [] else [t]))"
      by simp
    with p show ?thesis unfolding patterns_of_lines_set by blast
  qed
qed

lemma in_takeout_exists:
  "in_takeout f es = Inr es' \<Longrightarrow> os_path_exists_takeout es'"
  by (auto simp: in_takeout_def os_path_exists_takeout_def update_conv'
      split: option.splits fsnode.splits sum.splits)

lemma shutil_copy2_exists:
  "shutil_copy2 src name es = Inr es' \<Longrightarrow> os_path_exists_takeout es'"
  by (auto simp: shutil_copy2_def dest: in_takeout_exists
      split: option.splits fsnode.splits if_splits)

lemma for_each_invariant:
  assumes "\<And>x s s'. P s \<Longrightarrow> body x s = Inr s' \<Longrightarrow> P s'"
  shows "P s \<Longrightarrow> for_each body xs s = Inr s' \<Longrightarrow> P s'"
  using assms by (induction xs arbitrary: s) (auto split: sum.splits)

lemma copy_item_exists:
  "os_path_exists_takeout es \<Longrightarrow> copy_item item es = Inr es' \<Longrightarrow> os_path_exists_takeout es'"
proof -
  assume e: "os_path_exists_takeout es" and c: "copy_item item es = Inr es'"
  obtain filename paths where item: "item = (filename, paths)" by (cases item)
  show ?thesis
  proof (cases "length paths = 1")
    case True
    with c item show ?thesis by (auto simp: copy_item_def dest: shutil_copy2_exists)
  next
    case False
    with c item have "for_each (\<lambda>file_path. shutil_copy2 file_path (unique_name file_path filename)) paths es = Inr es'"
      by (simp add: copy_item_def)
    with e show ?thesis
      by (rule for_each_invariant [where P = os_path_exists_takeout, rotated]) (rule shutil_copy2_exists)
  qed
qed

lemma copy_files_exists:
  "os_path_exists_takeout es \<Longrightarrow> copy_files idx es = Inr es' \<Longrightarrow> os_path_exists_takeout es'"
  unfolding copy_files_def
  by (rule for_each_invariant [where P = os_path_exists_takeout]) (rule copy_item_exists)

lemma write_structure_guide_exists:
  "write_structure_guide r pats es = Inr es' \<Longrightarrow> os_path_exists_takeout es'"
  by (auto simp: write_structure_guide_def dest: in_takeout_exists split: sum.splits)

lemma get_ignored_patterns_frame:
  "get_ignored_patterns w = Inr (pats, w') \<Longrightarrow>
   fs_root w' = fs_root w \<and> started_threads w' = started_threads w"
  by (auto simp: get_ignored_patterns_def print_def split: option.splits sum.splits)

lemma report_success_fields:
  "fs_root (report_success td t g w) = fs_root w"
  "started_threads (report_success td t g w) =
     (if t > 0 then started_threads w @ [(td, t)] else started_threads w)"
  "last (stdout (report_success td t g w)) =
     (if g then Showinfo ''Success'' (Success td (if t > 0 then Some t else None))
      else Print (Success td (if t > 0 then Some t else None)))"
  "(if g then Showinfo ''Success'' (Success td (if t > 0 then Some t else None))
    else Print (Success td (if t > 0 then Some t else None)))
   \<in> set (stdout (report_success td t g w))"
  by (simp_all add: report_success_def Let_def)

lemma create_takeout_result:
  assumes "create_takeout root_dir convert_to_txt empty_before delete_timer use_gui w = Inr w'"
  shows "os_path_exists_takeout (fs_root w') \<and>
         started_threads w' =
           (if delete_timer > 0
            then started_threads w @ [(os_path_join root_dir takeout_name, delete_timer)]
            else started_threads w) \<and>
         last (stdout w') =
           (if use_gui
            then Showinfo ''Success'' (Success (os_path_join root_dir takeout_name)
                   (if delete_timer > 0 then Some delete_timer else None))
            else Print (Success (os_path_join root_dir takeout_name)
                   (if delete_timer > 0 then Some delete_timer else None))) \<and>
         (if use_gui
          then Showinfo ''Success'' (Success (os_path_join root_dir takeout_name)
                 (if delete_timer > 0 then Some delete_timer else None))
          else Print (Success (os_path_join root_dir takeout_name)
                 (if delete_timer > 0 then Some delete_timer else None)))
         \<in> set (stdout w')"
proof -
  from assms obtain w7 where
    w': "w' = report_success (os_path_join root_dir takeout_name) delete_timer use_gui w7"
    and ex: "os_path_exists_takeout (fs_root w7)"
    and th: "started_threads w7 = started_threads w"
    unfolding create_takeout_def Let_def
    by (auto simp: set_fs_def print_def
        dest!: get_ignored_patterns_frame
        dest: in_takeout_exists copy_files_exists [OF write_structure_guide_exists]
        split: sum.splits prod.splits if_splits)
  show ?thesis
    unfolding w' report_success_fields(1,2,3)
    using ex th report_success_fields(4) [of use_gui "os_path_join root_dir takeout_name" delete_timer w7]
    by simp
qed

section \<open>C6: the loader never raises\<close>

text \<open>
  C6.  Without a \<open>.takeoutignore\<close> in \<open>root_dir\<close> the loader returns the empty set and prints
  nothing.  When the file is there and reading it fails, whatever the error (no permission,
  bytes that do not decode, a directory of that name), the loader prints the error and
  returns the empty set.  It returns in every state: no error leaves it.
\<close>

theorem C6_loader_never_raises:
  "(map_of (fs_root w) ignore_name = None \<longrightarrow> get_ignored_patterns w = Inr ({}, w)) \<and>
   (\<forall>node e. map_of (fs_root w) ignore_name = Some node \<and> read_text_lines node = Inl e \<longrightarrow>
      get_ignored_patterns w = Inr ({}, print (Error_reading_ignore e) w)) \<and>
   (\<exists>r. get_ignored_patterns w = Inr r) \<and>
   read_text_lines (File False writable c) = Inl PermissionError \<and>
   read_text_lines (File True writable (Binary b)) = Inl UnicodeDecodeError \<and>
   read_text_lines (Dir sub) = Inl IsADirectoryError"
  by (auto simp: get_ignored_patterns_def read_text_lines_def split: option.splits sum.splits)

theorem C6_witness:
  "get_ignored_patterns (empty_world []) = Inr ({}, empty_world []) \<and>
   get_ignored_patterns ex_unreadable_ignore =
     Inr ({}, print (Error_reading_ignore PermissionError) ex_unreadable_ignore) \<and>
   get_ignored_patterns ex_binary_ignore =
     Inr ({}, print (Error_reading_ignore UnicodeDecodeError) ex_binary_ignore)"
proof -
  have 1: "map_of (fs_root (empty_world [])) ignore_name = None"
    by (simp add: empty_world_def)
  have 2: "map_of (fs_root ex_unreadable_ignore) ignore_name = Some (File False False (Text (''*.md'' @ [LF]))) \<and>
           read_text_lines (File False False (Text (''*.md'' @ [LF]))) = Inl PermissionError"
    by (simp add: ex_unreadable_ignore_def empty_world_def ignore_name_def read_text_lines_def)
  have 3: "map_of (fs_root ex_binary_ignore) ignore_name = Some (File True True (Binary ''xx'')) \<and>
           read_text_lines (File True True (Binary ''xx'')) = Inl UnicodeDecodeError"
    by (simp add: ex_binary_ignore_def empty_world_def ignore_name_def read_text_lines_def)
  from C6_loader_never_raises [of "empty_world []"] 1
  have "get_ignored_patterns (empty_world []) = Inr ({}, empty_world [])" by blast
  moreover from C6_loader_never_raises [of ex_unreadable_ignore] 2
  have "get_ignored_patterns ex_unreadable_ignore =
     Inr ({}, print (Error_reading_ignore PermissionError) ex_unreadable_ignore)" by blast
  moreover from C6_loader_never_raises [of ex_binary_ignore] 3
  have "get_ignored_patterns ex_binary_ignore =
     Inr ({}, print (Error_reading_ignore UnicodeDecodeError) ex_binary_ignore)" by blast
  ultimately show ?thesis by blast
qed

section \<open>C7: which lines become patterns\<close>

text \<open>
  C7, as amended.  Take a readable \<open>.takeoutignore\<close> whose lines are \<open>ls\<close>, each ended by a
  newline, and a last line \<open>t\<close> without one (possibly empty).  The loader returns the trimmed
  text of exactly the lines that are not blank after trimming and whose untrimmed text does
  not start with \<open>#\<close>.  The comment test is made on the line as read (line 37), so an
  indented \<open>#\<close> line is a pattern.
\<close>

theorem C7_patterns_of_the_lines:
  assumes ign: "map_of (fs_root w) ignore_name =
                   Some (File True True (Text (concat (map (\<lambda>l. l @ [LF]) ls) @ t)))"
      and nl: "\<forall>l \<in> set (t # ls). LF \<notin> set l \<and> CR \<notin> set l"
  shows "get_ignored_patterns w =
           Inr ({strip l | l. l \<in> set (ls @ [t]) \<and> strip l \<noteq> [] \<and> \<not> startswith l ''#''}, w)"
proof -
  let ?s = "concat (map (\<lambda>l. l @ [LF]) ls) @ t"
  from nl have "CR \<notin> set ?s" by (auto simp: LF_def CR_def)
  then have "universal_newlines ?s = ?s" by (rule universal_newlines_id)
  moreover from nl have "iter_lines ?s = map (\<lambda>l. l @ [LF]) ls @ (if t = [] then [] else [t])"
    by (intro iter_lines_lines) auto
  ultimately have rd: "read_text_lines (File True True (Text ?s)) =
      Inr (map (\<lambda>l. l @ [LF]) ls @ (if t = [] then [] else [t]))"
    by (simp add: read_text_lines_def)
  with ign show ?thesis
    by (simp add: get_ignored_patterns_def patterns_of_file_lines)
qed


theorem C7_witness:
  "get_ignored_patterns ex_ignore_file = Inr ({''*.md'', ''dist/'', ''notes''}, ex_ignore_file)"
proof -
  have 1: "map_of (fs_root ex_ignore_file) ignore_name =
             Some (File True True (Text (concat (map (\<lambda>l. l @ [LF])
                [''# build output'', ''  '', '' *.md '', ''dist/'']) @ ''notes'')))"
    by (simp add: ex_ignore_file_def empty_world_def ignore_name_def)
  have 2: "\<forall>l \<in> set (''notes'' # [''# build output'', ''  '', '' *.md '', ''dist/'']).
             LF \<notin> set l \<and> CR \<notin> set l"
    by (simp add: LF_def CR_def)
  have 3: "patterns_of_lines ([''# build output'', ''  '', '' *.md '', ''dist/''] @ [''notes'']) =
           {''*.md'', ''dist/'', ''notes''}"
    by code_simp
  from C7_patterns_of_the_lines [OF 1 2] 3 show ?thesis
    unfolding patterns_of_lines_set by simp
qed

theorem C7_counterexample:
  "get_ignored_patterns ex_indented_comment = Inr ({''#x''}, ex_indented_comment) \<and>
   read_text_lines (File True True (Text (''  #x'' @ [LF]))) = Inr [''  #x'' @ [LF]] \<and>
   startswith (strip (''  #x'' @ [LF])) ''#'' \<and>
   spec_patterns_of_lines [''  #x'' @ [LF]] = {}"
  by (simp add: get_ignored_patterns_def ex_indented_comment_def empty_world_def ignore_name_def
      read_text_lines_def patterns_of_lines_def spec_patterns_of_lines_def strip_def isspace_def
      startswith_def LF_def CR_def)

lemma indent_of_replicate: "indent_of n = replicate (4 * n) (CHR '' '')"
proof (induction n)
  case 0
  then show ?case by (simp add: indent_of_def)
next
  case (Suc n)
  have "replicate (4 * Suc n) (CHR '' '') = replicate 4 (CHR '' '') @ replicate (4 * n) (CHR '' '')"
    by (simp add: replicate_add [symmetric])
  moreover have "replicate 4 (CHR '' '') = ''    ''"
    by (simp add: eval_nat_numeral)
  ultimately show ?case using Suc by (simp add: indent_of_def)
qed

lemma valid_name_last: "valid_name n \<Longrightarrow> n \<noteq> [] \<and> last n \<noteq> os_sep"
  by (metis last_in_set valid_name_def)

lemma lookup_dir_mem: "lookup_dir es d = Some sub \<Longrightarrow> (d, Dir sub) \<in> set es"
  by (induction es d rule: lookup_dir.induct) (auto split: if_splits)

lemma valid_tree_mem: "valid_tree es \<Longrightarrow> (d, Dir sub) \<in> set es \<Longrightarrow> valid_name d \<and> valid_tree sub"
  by (induction es rule: valid_tree.induct) auto

lemma os_walk_valid:
  "t \<in> set (os_walk prune dirpath es) \<Longrightarrow> valid_tree es \<Longrightarrow> list_all valid_name dirpath \<Longrightarrow>
   list_all valid_name (fst t)"
proof (induction prune dirpath es arbitrary: t rule: os_walk.induct)
  case (1 prune dirpath es)
  from "1.prems"(1) have
    "t = (dirpath, prune (dirnames_of es), filenames_of es) \<or>
     (\<exists>d \<in> set (prune (dirnames_of es)). \<exists>sub. lookup_dir es d = Some sub \<and>
        t \<in> set (os_walk prune (dirpath @ [d]) sub))"
    by (subst (asm) os_walk.simps) (auto split: option.splits)
  then show ?case
  proof
    assume "t = (dirpath, prune (dirnames_of es), filenames_of es)"
    with "1.prems" show ?thesis by simp
  next
    assume "\<exists>d \<in> set (prune (dirnames_of es)). \<exists>sub. lookup_dir es d = Some sub \<and>
        t \<in> set (os_walk prune (dirpath @ [d]) sub)"
    then obtain d sub where d: "d \<in> set (prune (dirnames_of es))"
      and sub: "lookup_dir es d = Some sub"
      and t: "t \<in> set (os_walk prune (dirpath @ [d]) sub)"
      by blast
    from sub "1.prems"(2) have v: "valid_name d" "valid_tree sub"
      using lookup_dir_mem valid_tree_mem by blast+
    with "1.prems"(3) have "list_all valid_name (dirpath @ [d])" by simp
    with "1.IH" [OF d sub t v(2)] show ?thesis .
  qed
qed

lemma os_path_join_valid:
  assumes "a \<noteq> []" "last a \<noteq> os_sep" "valid_name n"
  shows "os_path_join a n = a @ [os_sep] @ n"
proof -
  from assms(3) have "\<not> startswith n [os_sep]"
    by (cases n) (auto simp: startswith_def valid_name_def)
  moreover from assms(1,2) have "\<not> endswith a [os_sep]"
    by (cases a rule: rev_cases) (auto simp: endswith_def)
  ultimately show ?thesis using assms(1) by (simp add: os_path_join_def)
qed

lemma foldl_join_valid:
  "a \<noteq> [] \<Longrightarrow> last a \<noteq> os_sep \<Longrightarrow> list_all valid_name ns \<Longrightarrow>
   foldl os_path_join a ns = a @ concat (map (\<lambda>n. os_sep # n) ns)"
proof (induction ns arbitrary: a)
  case Nil
  then show ?case by simp
next
  case (Cons n ns)
  then have n: "valid_name n" by simp
  with Cons.prems have j: "os_path_join a n = a @ [os_sep] @ n"
    by (intro os_path_join_valid)
  from valid_name_last [OF n] have "a @ [os_sep] @ n \<noteq> []" "last (a @ [os_sep] @ n) \<noteq> os_sep"
    by auto
  with Cons.IH [of "a @ [os_sep] @ n"] Cons.prems(3) j show ?case by simp
qed

lemma str_count_names:
  "list_all valid_name ns \<Longrightarrow> str_count (concat (map (\<lambda>n. os_sep # n) ns)) os_sep = length ns"
  by (induction ns) (auto simp: str_count_def valid_name_def filter_empty_conv)

lemma str_count_name: "valid_name n \<Longrightarrow> str_count n os_sep = 0"
  by (auto simp: str_count_def valid_name_def filter_empty_conv)

lemma guide_level_valid:
  assumes "list_all valid_name dirpath"
  shows "guide_level dirpath = length dirpath"
proof (cases dirpath)
  case Nil
  then show ?thesis by (simp add: guide_level_def os_path_relpath_def)
next
  case (Cons n ns)
  with assms have n: "valid_name n" and ns: "list_all valid_name ns" by simp_all
  from valid_name_last [OF n] have "n \<noteq> []" "last n \<noteq> os_sep" by auto
  then have rel: "os_path_relpath dirpath = n @ concat (map (\<lambda>n. os_sep # n) ns)"
    using ns Cons by (simp add: os_path_relpath_def foldl_join_valid)
  have cnt: "str_count (os_path_relpath dirpath) os_sep = length ns"
    unfolding rel using str_count_name [OF n] str_count_names [OF ns]
    by (simp add: str_count_def)
  have "os_path_relpath dirpath \<noteq> ''.''"
  proof (cases ns)
    case Nil
    with rel n show ?thesis by (simp add: valid_name_def)
  next
    case (Cons m ms)
    with rel have "os_sep \<in> set (os_path_relpath dirpath)" by simp
    then show ?thesis by (auto simp: os_sep_def)
  qed
  with cnt Cons show ?thesis by (simp add: guide_level_def)
qed

lemma basename_after_sep:
  "os_sep \<notin> set n \<Longrightarrow> os_path_basename (a @ os_sep # n) = n"
proof -
  assume n: "os_sep \<notin> set n"
  have "takeWhile (\<lambda>c. c \<noteq> os_sep) (rev n @ os_sep # rev a) = rev n"
    using n by (induction n rule: rev_induct) auto
  then show ?thesis by (simp add: os_path_basename_def)
qed

lemma basename_no_sep: "os_sep \<notin> set n \<Longrightarrow> os_path_basename n = n"
proof -
  assume n: "os_sep \<notin> set n"
  then have "takeWhile (\<lambda>c. c \<noteq> os_sep) (rev n) = rev n"
    by auto
  then have "rev (takeWhile (\<lambda>c. c \<noteq> os_sep) (rev n)) = rev (rev n)"
    by (rule arg_cong)
  then show ?thesis unfolding os_path_basename_def by simp
qed

lemma basename_join:
  assumes "os_sep \<notin> set n"
  shows "os_path_basename (os_path_join a n) = n"
proof -
  have n: "\<not> startswith n [os_sep]"
    using assms by (cases n) (auto simp: startswith_def)
  show ?thesis
  proof (cases "a = []")
    case True
    with n assms show ?thesis by (simp add: os_path_join_def basename_no_sep)
  next
    case False
    show ?thesis
    proof (cases "endswith a [os_sep]")
      case True
      with False obtain a' where "a = a' @ [os_sep]"
        by (cases a rule: rev_cases) (auto simp: endswith_def)
      with n True assms show ?thesis
        using basename_after_sep [of n a'] by (simp add: os_path_join_def)
    next
      case e: False
      with n False assms show ?thesis
        using basename_after_sep [of n a] by (simp add: os_path_join_def)
    qed
  qed
qed

lemma basename_path_string:
  assumes "list_all valid_name dirpath"
  shows "os_path_basename (path_string root_dir dirpath) =
         (if dirpath = [] then os_path_basename root_dir else last dirpath)"
proof (cases dirpath rule: rev_cases)
  case Nil
  then show ?thesis by (simp add: path_string_def)
next
  case (snoc ds d)
  with assms have "os_sep \<notin> set d" by (simp add: valid_name_def)
  with snoc show ?thesis by (simp add: path_string_def basename_join)
qed

lemma listed_files_sort:
  "listed_files pats files = sort (filter (\<lambda>file. \<not> file_ignored pats file) files)"
  by (simp add: listed_files_def filter_sort)

lemma guide_block_valid:
  assumes "list_all valid_name (fst t)"
  shows "guide_block root_dir pats t = spec_guide_block root_dir pats t"
proof -
  obtain dirpath dirnames filenames where t: "t = (dirpath, dirnames, filenames)"
    by (cases t)
  with assms have v: "list_all valid_name dirpath" by simp
  show ?thesis
    unfolding t guide_block_def spec_guide_block_def
    by (simp add: guide_level_valid [OF v] basename_path_string [OF v] indent_of_replicate
        listed_files_sort spec_dir_line_def spec_file_line_def [abs_def] Let_def)
qed

lemma for_each_append:
  "for_each body (xs @ ys) s =
     (case for_each body xs s of Inl e \<Rightarrow> Inl e | Inr s' \<Rightarrow> for_each body ys s')"
  by (induction xs arbitrary: s) (auto split: sum.splits)

lemma for_each_map: "for_each body (map g xs) s = for_each (\<lambda>x. body (g x)) xs s"
  by (induction xs arbitrary: s) (auto split: sum.splits)

lemma for_each_single: "for_each body [x] s = body x s"
  by (simp split: sum.splits)

lemma for_each_concat:
  "for_each (\<lambda>x. for_each body (f x)) xs s = for_each body (concat (map f xs)) s"
  by (induction xs arbitrary: s) (auto simp: for_each_append split: sum.splits)

lemma copy_item_plan:
  "copy_item item es = for_each (\<lambda>(src, dst). shutil_copy2 src dst) (copy_plan [item]) es"
  by (cases item) (auto simp: copy_item_def copy_plan_def for_each_map split: sum.splits)

lemma copy_files_plan:
  "copy_files idx es = for_each (\<lambda>(src, dst). shutil_copy2 src dst) (copy_plan idx) es"
proof -
  have "copy_files idx es =
        for_each (\<lambda>item. for_each (\<lambda>(src, dst). shutil_copy2 src dst) (copy_plan [item])) idx es"
    unfolding copy_files_def by (simp add: copy_item_plan [abs_def])
  also have "\<dots> = for_each (\<lambda>(src, dst). shutil_copy2 src dst)
                     (concat (map (\<lambda>item. copy_plan [item]) idx)) es"
    by (rule for_each_concat)
  also have "concat (map (\<lambda>item. copy_plan [item]) idx) = copy_plan idx"
    by (simp add: copy_plan_def)
  finally show ?thesis .
qed

lemma update_absent: "map_of te k = None \<Longrightarrow> AList.update k v te = te @ [(k, v)]"
  by (induction te) (auto split: if_splits)

lemma plain_files_lookup:
  "plain_files te \<Longrightarrow> map_of te k = Some node \<Longrightarrow> \<exists>r c. node = File r True c"
  by (induction te) (auto simp: plain_files_def split: if_splits fsnode.splits)

lemma regular_files_lookup:
  "regular_files te \<Longrightarrow> map_of te k = Some node \<Longrightarrow> \<exists>r w c. node = File r w c"
  by (induction te) (auto simp: regular_files_def split: if_splits fsnode.splits)

lemma plain_regular: "plain_files te \<Longrightarrow> regular_files te"
  by (induction te) (auto simp: plain_files_def regular_files_def split: fsnode.splits)

lemma regular_files_update:
  "regular_files te \<Longrightarrow> regular_files (AList.update k (File r w c) te)"
  by (induction te) (auto simp: regular_files_def)

lemma write_file_result:
  assumes "write_file name c te = Inr te'"
  shows "\<exists>r. te' = AList.update name (File r True c) te \<and>
             (r \<longleftrightarrow> (\<forall>r' w' c'. map_of te name = Some (File r' w' c') \<longrightarrow> r'))"
  using assms
  by (auto simp: write_file_def update_absent split: option.splits fsnode.splits if_splits)

lemma write_file_plain:
  assumes "plain_files te"
  shows "\<exists>r. write_file name c te = Inr (AList.update name (File r True c) te)"
proof (cases "map_of te name")
  case None
  then show ?thesis by (auto simp: write_file_def update_absent)
next
  case (Some node)
  with plain_files_lookup [OF assms Some] show ?thesis
    by (auto simp: write_file_def)
qed

lemma copy_file_to_result:
  assumes "copy_file_to name w c te = Inr te'"
  shows "te' = AList.update name (File True w c) te"
proof -
  from assms obtain te1 where
    w: "write_file name c te = Inr te1" and e: "te' = AList.update name (File True w c) te1"
    by (auto simp: copy_file_to_def split: sum.splits)
  from write_file_result [OF w] obtain r where "te1 = AList.update name (File r True c) te"
    by blast
  with e show ?thesis by (simp add: update_last)
qed

lemma copy_file_to_returns:
  assumes "regular_files te"
      and "\<forall>r' w' c'. map_of te name = Some (File r' w' c') \<longrightarrow> w'"
  shows "copy_file_to name w c te = Inr (AList.update name (File True w c) te)"
proof -
  have "\<exists>te1. write_file name c te = Inr te1"
  proof (cases "map_of te name")
    case None
    then show ?thesis by (simp add: write_file_def)
  next
    case (Some node)
    from regular_files_lookup [OF assms(1) Some] obtain r' w' c' where "node = File r' w' c'"
      by blast
    with Some assms(2) show ?thesis by (auto simp: write_file_def)
  qed
  then obtain te1 where w: "write_file name c te = Inr te1" by blast
  then have "copy_file_to name w c te = Inr (AList.update name (File True w c) te1)"
    by (simp add: copy_file_to_def)
  with copy_file_to_result [of name w c te] show ?thesis by simp
qed

lemma shutil_copy2_regular:
  assumes "map_of es takeout_name = Some (Dir te)" "regular_files te"
      and "shutil_copy2 src name es = Inr es'"
  shows "\<exists>w c. lookup_path es src = Some (File True w c) \<and>
           es' = AList.update takeout_name (Dir (AList.update name (File True w c) te)) es"
proof -
  from assms(3) obtain w c where
    src: "lookup_path es src = Some (File True w c)"
    and r: "in_takeout
              (\<lambda>te. case map_of te name of
                       Some (Dir sub) \<Rightarrow>
                         (case copy_file_to (last src) w c sub of
                            Inl e \<Rightarrow> Inl e
                          | Inr sub' \<Rightarrow> Inr (AList.update name (Dir sub') te))
                     | _ \<Rightarrow> copy_file_to name w c te)
              es = Inr es'"
    by (auto simp: shutil_copy2_def split: option.splits fsnode.splits if_splits)
  have "(case map_of te name of
           Some (Dir sub) \<Rightarrow>
             (case copy_file_to (last src) w c sub of
                Inl e \<Rightarrow> Inl e
              | Inr sub' \<Rightarrow> Inr (AList.update name (Dir sub') te))
         | _ \<Rightarrow> copy_file_to name w c te) = copy_file_to name w c te"
    using regular_files_lookup [OF assms(2), of name]
    by (auto split: option.splits fsnode.splits)
  with r assms(1) obtain te' where
    c: "copy_file_to name w c te = Inr te'" and e: "es' = AList.update takeout_name (Dir te') es"
    by (auto simp: in_takeout_def split: sum.splits)
  from copy_file_to_result [OF c] e src show ?thesis by blast
qed

lemma shutil_copy2_returns:
  assumes "map_of es takeout_name = Some (Dir te)" "regular_files te"
      and "\<forall>r' w' c'. map_of te name = Some (File r' w' c') \<longrightarrow> w'"
      and "lookup_path es src = Some (File True w c)"
  shows "shutil_copy2 src name es =
           Inr (AList.update takeout_name (Dir (AList.update name (File True w c) te)) es)"
proof -
  have "(case map_of te name of
           Some (Dir sub) \<Rightarrow>
             (case copy_file_to (last src) w c sub of
                Inl e \<Rightarrow> Inl e
              | Inr sub' \<Rightarrow> Inr (AList.update name (Dir sub') te))
         | _ \<Rightarrow> copy_file_to name w c te) = copy_file_to name w c te"
    using regular_files_lookup [OF assms(2), of name]
    by (auto split: option.splits fsnode.splits)
  with copy_file_to_returns [OF assms(2,3), of w c] assms(1,4) show ?thesis
    by (simp add: shutil_copy2_def in_takeout_def)
qed

lemma lookup_path_outside:
  "outside_takeout p \<Longrightarrow> lookup_path (AList.update takeout_name node es) p = lookup_path es p"
  by (cases "(es, p)" rule: lookup_path.cases) (auto simp: outside_takeout_def update_conv')

lemma find_Some_mem: "find P xs = Some x \<Longrightarrow> x \<in> set xs \<and> P x"
  by (induction xs) (auto split: if_splits)

lemma find_append:
  "find P (xs @ ys) = (case find P xs of None \<Rightarrow> find P ys | Some x \<Rightarrow> Some x)"
  by (induction xs) auto

lemma copy_plan_effect:
  assumes "for_each (\<lambda>(src, dst). shutil_copy2 src dst) plan es = Inr es'"
      and "map_of es takeout_name = Some (Dir te)"
      and "regular_files te"
      and "\<forall>(src, dst) \<in> set plan. outside_takeout src"
  shows "\<exists>te'. es' = AList.update takeout_name (Dir te') es \<and> regular_files te' \<and>
           (\<forall>k. map_of te' k =
                  (case find (\<lambda>(src, dst). dst = k) (rev plan) of
                     None \<Rightarrow> map_of te k
                   | Some (src, dst) \<Rightarrow> lookup_path es src)) \<and>
           (\<forall>(src, dst) \<in> set plan. \<exists>w c. lookup_path es src = Some (File True w c))"
  using assms
proof (induction plan arbitrary: es te)
  case Nil
  then have "es' = AList.update takeout_name (Dir te) es"
    by (simp add: update_triv)
  with Nil show ?case by auto
next
  case (Cons x plan)
  obtain src dst where x: "x = (src, dst)" by (cases x)
  from Cons.prems(1) x obtain es1 where
    c: "shutil_copy2 src dst es = Inr es1"
    and r: "for_each (\<lambda>(src, dst). shutil_copy2 src dst) plan es1 = Inr es'"
    by (auto split: sum.splits)
  from shutil_copy2_regular [OF Cons.prems(2,3) c] obtain w0 c0 where
    src: "lookup_path es src = Some (File True w0 c0)"
    and es1: "es1 = AList.update takeout_name (Dir (AList.update dst (File True w0 c0) te)) es"
    by blast
  let ?te1 = "AList.update dst (File True w0 c0) te"
  have m1: "map_of es1 takeout_name = Some (Dir ?te1)"
    by (simp add: es1 update_conv')
  have p1: "regular_files ?te1"
    using Cons.prems(3) by (rule regular_files_update)
  from Cons.prems(4) have o: "\<forall>(src, dst) \<in> set plan. outside_takeout src" by simp
  from Cons.IH [OF r m1 p1 o] obtain te' where
    e: "es' = AList.update takeout_name (Dir te') es1"
    and p: "regular_files te'"
    and m: "\<And>k. map_of te' k =
                  (case find (\<lambda>(src, dst). dst = k) (rev plan) of
                     None \<Rightarrow> map_of ?te1 k
                   | Some (src, dst) \<Rightarrow> lookup_path es1 src)"
    and s: "\<forall>(src, dst) \<in> set plan. \<exists>w c. lookup_path es1 src = Some (File True w c)"
    by blast
  have fr: "lookup_path es1 q = lookup_path es q" if "outside_takeout q" for q
    unfolding es1 using that by (rule lookup_path_outside)
  have fnd: "(s', d') \<in> set plan" if "find (\<lambda>(src, dst). dst = k) (rev plan) = Some (s', d')" for k s' d'
    using find_Some_mem [OF that] by auto
  have "es' = AList.update takeout_name (Dir te') es"
    by (simp add: e es1)
  moreover have "map_of te' k =
                  (case find (\<lambda>(src, dst). dst = k) (rev (x # plan)) of
                     None \<Rightarrow> map_of te k
                   | Some (src, dst) \<Rightarrow> lookup_path es src)" for k
  proof (cases "find (\<lambda>(src, dst). dst = k) (rev plan)")
    case None
    then show ?thesis
      by (simp add: m x find_append update_conv' src)
  next
    case (Some sd)
    obtain s' d' where sd: "sd = (s', d')" by (cases sd)
    from fnd Some sd have "(s', d') \<in> set plan" by blast
    with o have "outside_takeout s'" by blast
    with Some sd show ?thesis
      by (simp add: m x find_append fr)
  qed
  moreover have "\<forall>(src, dst) \<in> set (x # plan). \<exists>w c. lookup_path es src = Some (File True w c)"
  proof -
    have "\<exists>w c. lookup_path es a = Some (File True w c)" if "(a, b) \<in> set plan" for a b
    proof -
      from that o have "outside_takeout a" by blast
      then have e: "lookup_path es1 a = lookup_path es a" by (rule fr)
      from s that obtain w c where "lookup_path es1 a = Some (File True w c)" by auto
      with e have "lookup_path es a = Some (File True w c)" by (rule subst)
      then show ?thesis by blast
    qed
    with src x show ?thesis by auto
  qed
  ultimately show ?case using p by blast
qed

lemma written_once_tail:
  assumes "length (filter (\<lambda>sd. snd sd = d) (x # plan)) = 1" "(s, d) \<in> set plan"
  shows "snd x \<noteq> d \<and> length (filter (\<lambda>sd. snd sd = d) plan) = 1"
proof -
  have "snd (s, d) = d" by simp
  with assms(2) have "\<exists>sd \<in> set plan. snd sd = d" by (rule rev_bexI)
  then have "filter (\<lambda>sd. snd sd = d) plan \<noteq> []"
    by (simp add: filter_empty_conv)
  then have "0 < length (filter (\<lambda>sd. snd sd = d) plan)" by simp
  with assms(1) show ?thesis by (auto split: if_splits)
qed

lemma copy_plan_returns:
  assumes "map_of es takeout_name = Some (Dir te)"
      and "regular_files te"
      and "\<forall>(src, dst) \<in> set plan. \<forall>r' w' c'. map_of te dst = Some (File r' w' c') \<longrightarrow> w'"
      and "\<forall>(src, dst) \<in> set plan.
             outside_takeout src \<and>
             (\<exists>w c. lookup_path es src = Some (File True w c) \<and>
                    (\<not> w \<longrightarrow> length (filter (\<lambda>sd. snd sd = dst) plan) = 1))"
  shows "\<exists>es'. for_each (\<lambda>(src, dst). shutil_copy2 src dst) plan es = Inr es'"
  using assms
proof (induction plan arbitrary: es te)
  case Nil
  then show ?case by simp
next
  case (Cons x plan)
  obtain src dst where x: "x = (src, dst)" by (cases x)
  have "(src, dst) \<in> set (x # plan)" by (simp add: x)
  from bspec [OF Cons.prems(4) this]
  have "outside_takeout src \<and>
        (\<exists>w c. lookup_path es src = Some (File True w c) \<and>
               (\<not> w \<longrightarrow> length (filter (\<lambda>sd. snd sd = dst) (x # plan)) = 1))"
    by (simp only: prod.case)
  then obtain w0 c0 where
    src: "lookup_path es src = Some (File True w0 c0)"
    and once: "\<not> w0 \<longrightarrow> length (filter (\<lambda>sd. snd sd = dst) (x # plan)) = 1"
    by blast
  from Cons.prems(3) x have wr: "\<forall>r' w' c'. map_of te dst = Some (File r' w' c') \<longrightarrow> w'"
    by auto
  let ?te1 = "AList.update dst (File True w0 c0) te"
  let ?es1 = "AList.update takeout_name (Dir ?te1) es"
  have c: "shutil_copy2 src dst es = Inr ?es1"
    using Cons.prems(1,2) wr src by (rule shutil_copy2_returns)
  have m1: "map_of ?es1 takeout_name = Some (Dir ?te1)"
    by (simp add: update_conv')
  have p1: "regular_files ?te1"
    using Cons.prems(2) by (rule regular_files_update)
  have w1: "\<forall>r' w' c'. map_of ?te1 b = Some (File r' w' c') \<longrightarrow> w'"
    if ab: "(a, b) \<in> set plan" for a b
  proof (cases "b = dst")
    case True
    have w0
    proof (rule ccontr)
      assume "\<not> w0"
      with once have "length (filter (\<lambda>sd. snd sd = dst) (x # plan)) = 1" by simp
      from written_once_tail [OF this] ab True have "snd x \<noteq> dst" by blast
      with x show False by simp
    qed
    with True show ?thesis by (simp add: update_conv')
  next
    case False
    from Cons.prems(3) ab have "\<forall>r' w' c'. map_of te b = Some (File r' w' c') \<longrightarrow> w'"
      by auto
    with False show ?thesis by (simp add: update_conv')
  qed
  have s1: "outside_takeout a \<and>
            (\<exists>w c. lookup_path ?es1 a = Some (File True w c) \<and>
                   (\<not> w \<longrightarrow> length (filter (\<lambda>sd. snd sd = b) plan) = 1))"
    if ab: "(a, b) \<in> set plan" for a b
  proof -
    from ab have "(a, b) \<in> set (x # plan)" by simp
    from bspec [OF Cons.prems(4) this]
    have "outside_takeout a \<and>
          (\<exists>w c. lookup_path es a = Some (File True w c) \<and>
                 (\<not> w \<longrightarrow> length (filter (\<lambda>sd. snd sd = b) (x # plan)) = 1))"
      by (simp only: prod.case)
    then obtain w c where o: "outside_takeout a"
      and l: "lookup_path es a = Some (File True w c)"
      and n: "\<not> w \<longrightarrow> length (filter (\<lambda>sd. snd sd = b) (x # plan)) = 1"
      by blast
    from o have "lookup_path ?es1 a = lookup_path es a" by (rule lookup_path_outside)
    with l have l1: "lookup_path ?es1 a = Some (File True w c)" by simp
    have "length (filter (\<lambda>sd. snd sd = b) plan) = 1" if "\<not> w"
      using written_once_tail [OF _ ab, of x] n that by blast
    with o l1 show ?thesis by blast
  qed
  from w1 have w1': "\<forall>(src, dst) \<in> set plan.
                       \<forall>r' w' c'. map_of ?te1 dst = Some (File r' w' c') \<longrightarrow> w'"
    by blast
  from s1 have s1': "\<forall>(src, dst) \<in> set plan.
             outside_takeout src \<and>
             (\<exists>w c. lookup_path ?es1 src = Some (File True w c) \<and>
                    (\<not> w \<longrightarrow> length (filter (\<lambda>sd. snd sd = dst) plan) = 1))"
    by blast
  from Cons.IH [OF m1 p1 w1' s1'] obtain es' where
    "for_each (\<lambda>(src, dst). shutil_copy2 src dst) plan ?es1 = Inr es'"
    by blast
  with c x show ?case by simp
qed

lemma str_replace_name: "os_sep \<notin> set n \<Longrightarrow> str_replace os_sep u n = n"
  unfolding str_replace_def by (induction n) auto

lemma str_replace_names:
  "list_all valid_name ns \<Longrightarrow>
   str_replace os_sep u (concat (map (\<lambda>n. os_sep # n) ns)) = concat (map (\<lambda>n. u # n) ns)"
proof (induction ns)
  case Nil
  then show ?case by (simp add: str_replace_def)
next
  case (Cons n ns)
  then have "str_replace os_sep u n = n"
    by (simp add: str_replace_name valid_name_def)
  with Cons show ?case by (simp add: str_replace_def)
qed

lemma unique_name_valid:
  assumes "list_all valid_name (dirs @ [filename])" "dirs \<noteq> []"
  shows "unique_name (dirs @ [filename]) filename = underscore_joined (dirs @ [filename])"
proof -
  obtain h t where dirs: "dirs = h # t" using assms(2) by (cases dirs) auto
  with assms(1) have h: "valid_name h" and t: "list_all valid_name (t @ [filename])"
    by simp_all
  from valid_name_last [OF h] t
  have "foldl os_path_join h (t @ [filename]) = h @ concat (map (\<lambda>n. os_sep # n) (t @ [filename]))"
    by (intro foldl_join_valid) auto
  then have "os_path_join (os_path_relpath dirs) filename =
             h @ concat (map (\<lambda>n. os_sep # n) (t @ [filename]))"
    by (simp add: os_path_relpath_def dirs)
  moreover have "str_replace os_sep (CHR ''_'') (h @ concat (map (\<lambda>n. os_sep # n) (t @ [filename]))) =
                 h @ concat (map (\<lambda>n. CHR ''_'' # n) (t @ [filename]))"
    using str_replace_names [OF t, of "CHR ''_''"] str_replace_name [of h "CHR ''_''"] h
    by (simp add: str_replace_def valid_name_def)
  ultimately show ?thesis
    by (simp add: unique_name_def os_path_dirname_def underscore_joined_def dirs)
qed

lemma copy_plan_mem:
  assumes "(filename, paths) \<in> set idx" "1 < length paths" "p \<in> set paths"
  shows "(p, unique_name p filename) \<in> set (copy_plan idx)"
proof -
  let ?f = "\<lambda>(filename, paths).
              if length paths = 1 then [(paths ! 0, filename)]
              else map (\<lambda>p. (p, unique_name p filename)) paths"
  from assms(2,3) have "(p, unique_name p filename) \<in> set (?f (filename, paths))"
    by simp
  with assms(1) have "\<exists>item \<in> set idx. (p, unique_name p filename) \<in> set (?f item)"
    by (rule rev_bexI)
  then show ?thesis
    by (simp add: copy_plan_def)
qed

lemma find_rev_plan:
  assumes "(p, k) \<in> set plan"
  shows "\<exists>s. find (\<lambda>(src, dst). dst = k) (rev plan) = Some (s, k) \<and> (s, k) \<in> set plan"
proof (cases "find (\<lambda>(src, dst). dst = k) (rev plan)")
  case None
  then have "\<forall>x \<in> set (rev plan). \<not> (\<lambda>(src, dst). dst = k) x"
    by (simp only: find_None_iff) blast
  with assms show ?thesis by auto
next
  case (Some sd)
  obtain s d where sd: "sd = (s, d)" by (cases sd)
  from find_Some_mem [OF Some] sd have "(s, d) \<in> set plan" "d = k" by auto
  with Some sd show ?thesis by blast
qed

lemma takeout_entries_update:
  "takeout_entries (AList.update takeout_name (Dir te) es) = te"
  by (simp add: takeout_entries_def update_conv')

lemma ex_two_prepare: "prepare_takeout eb ex_two = Inr ex_two_prepared"
  by (simp add: prepare_takeout_def os_path_exists_takeout_def os_makedirs_takeout_def
      takeout_name_def ex_two_def ex_two_prepared_def)

lemma ex_two_patterns:
  "fs_root w = ex_two_prepared \<Longrightarrow> get_ignored_patterns w = Inr ({}, w)"
  by (simp add: get_ignored_patterns_def ignore_name_def ex_two_prepared_def ex_two_def)

lemma ex_two_index:
  "build_file_paths {} ex_two_prepared = [(''x.txt'', [[''a'', ''x.txt''], [''b'', ''x.txt'']])]"
  by code_simp

lemma ex_two_guide:
  "\<exists>g. write_structure_guide root_dir {} ex_two_prepared = Inr (ex_two_guided g)"
  by (simp add: write_structure_guide_def in_takeout_def write_file_def takeout_name_def guide_name_def
      ex_two_prepared_def ex_two_guided_def ex_two_def)

lemma ex_two_copy:
  "copy_files [(''x.txt'', [[''a'', ''x.txt''], [''b'', ''x.txt'']])] (ex_two_guided g) =
     Inr (ex_two @ [(''.takeout'', Dir [(''structure_guide.txt'', File True True (Text g)),
                                       (''a_x.txt'', File True True (Text ''A'')),
                                       (''b_x.txt'', File True True (Text ''B''))])])"
  by (simp add: copy_files_def copy_item_def shutil_copy2_def in_takeout_def copy_file_to_def
      write_file_def unique_name_def os_path_dirname_def os_path_relpath_def os_path_join_def str_replace_def
      startswith_def endswith_def os_sep_def takeout_name_def ex_two_guided_def ex_two_def)

lemma ex_two_convert:
  "in_takeout convert_names
     (ex_two @ [(''.takeout'', Dir [(''structure_guide.txt'', File True True (Text g)),
                                       (''a_x.txt'', File True True (Text ''A'')),
                                       (''b_x.txt'', File True True (Text ''B''))])]) =
   Inr (ex_two @ [(''.takeout'', Dir [(''structure_guide.txt'', File True True (Text g)),
                                       (''a_x.txt.txt'', File True True (Text ''A'')),
                                       (''b_x.txt.txt'', File True True (Text ''B''))])])"
  by (simp add: in_takeout_def convert_names_def os_listdir_def os_rename_def guide_name_def
      takeout_name_def ex_two_def)

lemma takeout_entries_ex_two:
  "takeout_entries (ex_two @ [(''.takeout'', Dir te)]) = te"
  by (simp add: takeout_entries_def takeout_name_def ex_two_def)

lemma fs_root_print: "fs_root (print m w) = fs_root w"
  by (simp add: print_def)

lemma create_takeout_phases:
  assumes p: "prepare_takeout eb (fs_root w) = Inr es2"
      and g: "\<And>w1. fs_root w1 = es2 \<Longrightarrow> get_ignored_patterns w1 = Inr (pats, w1)"
      and s: "write_structure_guide r pats es2 = Inr es5"
      and cp: "copy_files (build_file_paths pats es2) es5 = Inr es6"
  shows "\<exists>w7. create_takeout r False eb t gui w =
                Inr (report_success (os_path_join r takeout_name) t gui w7) \<and>
              fs_root w7 = es6"
  unfolding create_takeout_def Let_def
  apply (simp add: fs_root_print p set_fs_def g s cp)
  apply (rule exI, rule conjI, rule refl)
  apply (simp add: fs_root_print)
  done

lemma create_takeout_phases_txt:
  assumes p: "prepare_takeout eb (fs_root w) = Inr es2"
      and g: "\<And>w1. fs_root w1 = es2 \<Longrightarrow> get_ignored_patterns w1 = Inr (pats, w1)"
      and s: "write_structure_guide r pats es2 = Inr es5"
      and cp: "copy_files (build_file_paths pats es2) es5 = Inr es6"
      and cv: "in_takeout convert_names es6 = Inr es7"
  shows "\<exists>w7. create_takeout r True eb t gui w =
                Inr (report_success (os_path_join r takeout_name) t gui w7) \<and>
              fs_root w7 = es7"
  unfolding create_takeout_def Let_def
  apply (simp add: fs_root_print p set_fs_def g s cp cv)
  apply (rule exI, rule conjI, rule refl)
  apply (simp add: fs_root_print)
  done

lemma ex_two_scenario:
  "\<exists>w' guide. create_takeout root_dir False empty_before delete_timer use_gui (empty_world ex_two) = Inr w' \<and>
         takeout_entries (fs_root w') =
            [(''structure_guide.txt'', File True True (Text guide)),
             (''a_x.txt'', File True True (Text ''A'')),
             (''b_x.txt'', File True True (Text ''B''))]"
proof -
  obtain g where g: "write_structure_guide root_dir {} ex_two_prepared = Inr (ex_two_guided g)"
    using ex_two_guide by blast
  have p: "prepare_takeout empty_before (fs_root (empty_world ex_two)) = Inr ex_two_prepared"
    by (simp add: empty_world_def ex_two_prepare)
  have cp: "copy_files (build_file_paths {} ex_two_prepared) (ex_two_guided g) =
     Inr (ex_two @ [(''.takeout'', Dir [(''structure_guide.txt'', File True True (Text g)),
                                       (''a_x.txt'', File True True (Text ''A'')),
                                       (''b_x.txt'', File True True (Text ''B''))])])"
    by (simp only: ex_two_index ex_two_copy)
  from create_takeout_phases [OF p ex_two_patterns g cp]
  obtain w7 where
    "create_takeout root_dir False empty_before delete_timer use_gui (empty_world ex_two) =
       Inr (report_success (os_path_join root_dir takeout_name) delete_timer use_gui w7)"
    "fs_root w7 = ex_two @ [(''.takeout'', Dir [(''structure_guide.txt'', File True True (Text g)),
                                       (''a_x.txt'', File True True (Text ''A'')),
                                       (''b_x.txt'', File True True (Text ''B''))])]"
    by blast
  then show ?thesis
    by (simp add: report_success_fields takeout_entries_ex_two)
qed

lemma ex_two_scenario_txt:
  "\<exists>w' guide. create_takeout root_dir True empty_before delete_timer use_gui (empty_world ex_two) = Inr w' \<and>
         takeout_entries (fs_root w') =
            [(''structure_guide.txt'', File True True (Text guide)),
             (''a_x.txt.txt'', File True True (Text ''A'')),
             (''b_x.txt.txt'', File True True (Text ''B''))]"
proof -
  obtain g where g: "write_structure_guide root_dir {} ex_two_prepared = Inr (ex_two_guided g)"
    using ex_two_guide by blast
  have p: "prepare_takeout empty_before (fs_root (empty_world ex_two)) = Inr ex_two_prepared"
    by (simp add: empty_world_def ex_two_prepare)
  have cp: "copy_files (build_file_paths {} ex_two_prepared) (ex_two_guided g) =
     Inr (ex_two @ [(''.takeout'', Dir [(''structure_guide.txt'', File True True (Text g)),
                                       (''a_x.txt'', File True True (Text ''A'')),
                                       (''b_x.txt'', File True True (Text ''B''))])])"
    by (simp only: ex_two_index ex_two_copy)
  from create_takeout_phases_txt [OF p ex_two_patterns g cp ex_two_convert]
  obtain w7 where
    "create_takeout root_dir True empty_before delete_timer use_gui (empty_world ex_two) =
       Inr (report_success (os_path_join root_dir takeout_name) delete_timer use_gui w7)"
    "fs_root w7 = ex_two @ [(''.takeout'', Dir [(''structure_guide.txt'', File True True (Text g)),
                                       (''a_x.txt.txt'', File True True (Text ''A'')),
                                       (''b_x.txt.txt'', File True True (Text ''B''))])]"
    by blast
  then show ?thesis
    by (simp add: report_success_fields takeout_entries_ex_two)
qed

lemma plain_files_update:
  "plain_files te \<Longrightarrow> plain_files (AList.update k (File r True c) te)"
  by (induction te) (auto simp: plain_files_def)

lemma dirnames_of_update:
  "map_of es k = Some (Dir sub) \<Longrightarrow> dirnames_of (AList.update k (Dir sub') es) = dirnames_of es"
  by (induction es rule: dirnames_of.induct) (auto split: if_splits)

lemma filenames_of_update:
  "map_of es k = Some (Dir sub) \<Longrightarrow> filenames_of (AList.update k (Dir sub') es) = filenames_of es"
  by (induction es rule: filenames_of.induct) (auto split: if_splits)

lemma lookup_dir_update:
  "d \<noteq> k \<Longrightarrow> lookup_dir (AList.update k (Dir sub') es) d = lookup_dir es d"
  by (induction es d rule: lookup_dir.induct) auto

lemma os_walk_update_takeout:
  assumes "map_of es takeout_name = Some (Dir te)"
  shows "os_walk (prune_dirnames pats) [] (AList.update takeout_name (Dir te') es) =
         os_walk (prune_dirnames pats) [] es"
proof -
  let ?es' = "AList.update takeout_name (Dir te') es"
  have d: "dirnames_of ?es' = dirnames_of es"
    using assms by (rule dirnames_of_update)
  have f: "filenames_of ?es' = filenames_of es"
    using assms by (rule filenames_of_update)
  have l: "lookup_dir ?es' d = lookup_dir es d"
    if "d \<in> set (prune_dirnames pats (dirnames_of es))" for d
    using prune_dirnames_never [OF that] by (simp add: lookup_dir_update takeout_name_def)
  have "map (\<lambda>d. case lookup_dir ?es' d of
                    None \<Rightarrow> []
                  | Some sub \<Rightarrow> os_walk (prune_dirnames pats) ([] @ [d]) sub)
            (prune_dirnames pats (dirnames_of es)) =
        map (\<lambda>d. case lookup_dir es d of
                    None \<Rightarrow> []
                  | Some sub \<Rightarrow> os_walk (prune_dirnames pats) ([] @ [d]) sub)
            (prune_dirnames pats (dirnames_of es))"
    by (rule map_cong) (simp_all only: l)
  then show ?thesis
    unfolding os_walk.simps [of _ "[]" ?es'] os_walk.simps [of _ "[]" es] d f
    by (simp only:)
qed

lemma structure_guide_text_update_takeout:
  "map_of es takeout_name = Some (Dir te) \<Longrightarrow>
   structure_guide_text root_dir pats (AList.update takeout_name (Dir te') es) =
   structure_guide_text root_dir pats es"
  by (simp only: structure_guide_text_def os_walk_update_takeout)

lemma in_takeout_result:
  "in_takeout f es = Inr es' \<Longrightarrow>
   \<exists>te te'. map_of es takeout_name = Some (Dir te) \<and> f te = Inr te' \<and>
            es' = AList.update takeout_name (Dir te') es"
  by (auto simp: in_takeout_def split: option.splits fsnode.splits sum.splits)

lemma write_structure_guide_result:
  assumes "write_structure_guide root_dir pats es = Inr es'"
  shows "\<exists>te r. map_of es takeout_name = Some (Dir te) \<and>
           es' = AList.update takeout_name
                   (Dir (AList.update guide_name
                           (File r True (Text (structure_guide_text root_dir pats es))) te)) es"
proof -
  from assms obtain es1 where
    a: "in_takeout (write_file guide_name (Text [])) es = Inr es1"
    and b: "in_takeout (write_file guide_name (Text (structure_guide_text root_dir pats es1))) es1 =
              Inr es'"
    by (auto simp: write_structure_guide_def split: sum.splits)
  from in_takeout_result [OF a] obtain te te1 where
    t: "map_of es takeout_name = Some (Dir te)"
    and w1: "write_file guide_name (Text []) te = Inr te1"
    and es1: "es1 = AList.update takeout_name (Dir te1) es"
    by blast
  from write_file_result [OF w1] obtain r1 where
    te1: "te1 = AList.update guide_name (File r1 True (Text [])) te"
    by blast
  have g: "structure_guide_text root_dir pats es1 = structure_guide_text root_dir pats es"
    unfolding es1 using t by (rule structure_guide_text_update_takeout)
  from in_takeout_result [OF b] obtain te1' te2 where
    t1: "map_of es1 takeout_name = Some (Dir te1')"
    and w2: "write_file guide_name (Text (structure_guide_text root_dir pats es)) te1' = Inr te2"
    and es': "es' = AList.update takeout_name (Dir te2) es1"
    unfolding g by blast
  from t1 have "te1' = te1" by (simp add: es1 update_conv')
  with write_file_result [OF w2] obtain r2 where
    "te2 = AList.update guide_name (File r2 True (Text (structure_guide_text root_dir pats es))) te1"
    by blast
  then have "te2 = AList.update guide_name
                     (File r2 True (Text (structure_guide_text root_dir pats es))) te"
    by (simp add: te1 update_last)
  moreover from es' have "es' = AList.update takeout_name (Dir te2) es"
    by (simp add: es1 update_last)
  ultimately show ?thesis using t by blast
qed

lemma write_structure_guide_plain:
  assumes "map_of es takeout_name = Some (Dir te)" "plain_files te"
  shows "\<exists>es'. write_structure_guide root_dir pats es = Inr es'"
proof -
  from write_file_plain [OF assms(2), of guide_name "Text []"] obtain r1 where
    w1: "write_file guide_name (Text []) te =
           Inr (AList.update guide_name (File r1 True (Text [])) te)"
    by blast
  let ?te1 = "AList.update guide_name (File r1 True (Text [])) te"
  let ?es1 = "AList.update takeout_name (Dir ?te1) es"
  have a: "in_takeout (write_file guide_name (Text [])) es = Inr ?es1"
    using assms(1) w1 by (simp add: in_takeout_def)
  have p1: "plain_files ?te1"
    using assms(2) by (rule plain_files_update)
  have t1: "map_of ?es1 takeout_name = Some (Dir ?te1)"
    by (simp add: update_conv')
  from write_file_plain [OF p1, of guide_name "Text (structure_guide_text root_dir pats ?es1)"]
  obtain te2 where
    "write_file guide_name (Text (structure_guide_text root_dir pats ?es1)) ?te1 = Inr te2"
    by blast
  with t1 have "\<exists>es'. in_takeout (write_file guide_name
                        (Text (structure_guide_text root_dir pats ?es1))) ?es1 = Inr es'"
    by (simp add: in_takeout_def)
  with a show ?thesis
    by (simp add: write_structure_guide_def)
qed

section \<open>C5: the layout of the structure guide\<close>

text \<open>
  C5.  In a well-formed tree the structure guide is its title line, which names the base name
  of \<open>root_dir\<close> (as \<open>os.path.basename\<close> gives it), an empty line, and then for every visited
  directory, in the order of the walk, the line of the directory, indented by four spaces for
  each level of depth (the root has depth 0), followed by one line for each file of the
  directory that is not ignored, sorted, indented by four spaces more.  Lines 75 to 85 write
  this text to the file \<open>structure_guide.txt\<close> of \<open>takeout_dir\<close>: when they return, that entry
  is a writable file with this text as its content and nothing else has changed, and they
  return when \<open>takeout_dir\<close> is a directory of plain files.
\<close>

theorem C5_structure_guide_layout:
  assumes "valid_tree es"
  shows "structure_guide_text root_dir ignore_patterns es =
           (''Project Structure for: '' @ os_path_basename root_dir @ [LF]) @ [LF] @
           concat (map (spec_guide_block root_dir ignore_patterns)
                       (os_walk (prune_dirnames ignore_patterns) [] es)) \<and>
         (write_structure_guide root_dir ignore_patterns es = Inr es' \<longrightarrow>
            (\<exists>r. map_of (takeout_entries es') guide_name =
                    Some (File r True (Text (structure_guide_text root_dir ignore_patterns es))) \<and>
                  es' = AList.update takeout_name
                          (Dir (AList.update guide_name
                                  (File r True (Text (structure_guide_text root_dir ignore_patterns es)))
                                  (takeout_entries es))) es)) \<and>
         (map_of es takeout_name = Some (Dir te) \<and> plain_files te \<longrightarrow>
            (\<exists>es''. write_structure_guide root_dir ignore_patterns es = Inr es''))"
proof -
  have "guide_block root_dir ignore_patterns t = spec_guide_block root_dir ignore_patterns t"
    if "t \<in> set (os_walk (prune_dirnames ignore_patterns) [] es)" for t
    using os_walk_valid [OF that assms] by (simp add: guide_block_valid)
  then have eq: "map (guide_block root_dir ignore_patterns) (os_walk (prune_dirnames ignore_patterns) [] es) =
             map (spec_guide_block root_dir ignore_patterns) (os_walk (prune_dirnames ignore_patterns) [] es)"
    by simp
  have layout: "structure_guide_text root_dir ignore_patterns es =
           (''Project Structure for: '' @ os_path_basename root_dir @ [LF]) @ [LF] @
           concat (map (spec_guide_block root_dir ignore_patterns)
                       (os_walk (prune_dirnames ignore_patterns) [] es))"
    unfolding structure_guide_text_def eq by simp
  have written: "\<exists>r. map_of (takeout_entries es') guide_name =
                    Some (File r True (Text (structure_guide_text root_dir ignore_patterns es))) \<and>
                  es' = AList.update takeout_name
                          (Dir (AList.update guide_name
                                  (File r True (Text (structure_guide_text root_dir ignore_patterns es)))
                                  (takeout_entries es))) es"
    if "write_structure_guide root_dir ignore_patterns es = Inr es'"
  proof -
    from write_structure_guide_result [OF that] obtain te0 r where
      t: "map_of es takeout_name = Some (Dir te0)"
      and e: "es' = AList.update takeout_name
                   (Dir (AList.update guide_name
                           (File r True (Text (structure_guide_text root_dir ignore_patterns es))) te0)) es"
      by blast
    from t have te0: "takeout_entries es = te0"
      by (simp add: takeout_entries_def)
    have "map_of (takeout_entries es') guide_name =
            Some (File r True (Text (structure_guide_text root_dir ignore_patterns es)))"
      unfolding e takeout_entries_update by (simp add: update_conv')
    with e te0 show ?thesis by blast
  qed
  have returns: "\<exists>es''. write_structure_guide root_dir ignore_patterns es = Inr es''"
    if "map_of es takeout_name = Some (Dir te)" "plain_files te"
    using that by (rule write_structure_guide_plain)
  from layout written returns show ?thesis by blast
qed

theorem C5_witness:
  "valid_tree ex_project \<and> structure_guide_text ''/home/u/proj'' {''*.md''} ex_project = ex_guide \<and>
   valid_tree ex_project_prepared \<and>
   structure_guide_text ''/home/u/proj'' {''*.md''} ex_project_prepared = ex_guide \<and>
   write_structure_guide ''/home/u/proj'' {''*.md''} ex_project_prepared = Inr ex_project_guided \<and>
   map_of (takeout_entries ex_project_guided) guide_name = Some (File True True (Text ex_guide)) \<and>
   (\<exists>es'. write_structure_guide ''/home/u/proj'' {''*.md''} ex_project_prepared = Inr es')"
proof -
  have v: "valid_tree ex_project" by code_simp
  have "(''Project Structure for: '' @ os_path_basename ''/home/u/proj'' @ [LF]) @ [LF] @
           concat (map (spec_guide_block ''/home/u/proj'' {''*.md''})
                       (os_walk (prune_dirnames {''*.md''}) [] ex_project)) = ex_guide"
    by code_simp
  with C5_structure_guide_layout [OF v, of "''/home/u/proj''" "{''*.md''}"]
  have a: "structure_guide_text ''/home/u/proj'' {''*.md''} ex_project = ex_guide"
    by simp
  have v': "valid_tree ex_project_prepared" by code_simp
  have l: "(''Project Structure for: '' @ os_path_basename ''/home/u/proj'' @ [LF]) @ [LF] @
           concat (map (spec_guide_block ''/home/u/proj'' {''*.md''})
                       (os_walk (prune_dirnames {''*.md''}) [] ex_project_prepared)) = ex_guide"
    by code_simp
  have w: "write_structure_guide ''/home/u/proj'' {''*.md''} ex_project_prepared =
             Inr ex_project_guided"
    by code_simp
  have p: "map_of ex_project_prepared takeout_name = Some (Dir []) \<and> plain_files []"
    by code_simp
  note t = C5_structure_guide_layout [OF v', of "''/home/u/proj''" "{''*.md''}"
      ex_project_guided "[]"]
  from t l have b: "structure_guide_text ''/home/u/proj'' {''*.md''} ex_project_prepared = ex_guide"
    by simp
  from t w b obtain r where
    "map_of (takeout_entries ex_project_guided) guide_name = Some (File r True (Text ex_guide))"
    by auto
  moreover have "map_of (takeout_entries ex_project_guided) guide_name =
                   Some (File True True (Text ex_guide))"
    by code_simp
  moreover from t p
  have "\<exists>es'. write_structure_guide ''/home/u/proj'' {''*.md''} ex_project_prepared = Inr es'"
    by blast
  ultimately show ?thesis using v a v' b w by blast
qed

section \<open>C9: the deferred deletion\<close>

text \<open>
  C9.  A run that returns has started exactly one deletion thread when \<open>delete_timer > 0\<close>,
  for \<open>takeout_dir\<close> and that delay, and none otherwise, and the success message (printed, or
  shown by the message box) is among what it has written.
  When no thread was started, \<open>takeout_dir\<close> is in place as the run returns and the success
  message is the last thing written.  The thread's function: \<open>time.sleep\<close> stands before the
  \<open>try\<close> (line 21), so an error of it leaves the function; when \<open>time.sleep\<close> returns, the
  function returns in every state, and when \<open>shutil.rmtree\<close> fails, the error is printed and
  the file system is left as it was.
\<close>

theorem C9_deferred_deletion:
  "(create_takeout root_dir convert_to_txt empty_before delete_timer use_gui w = Inr w' \<longrightarrow>
      started_threads w' =
        (if delete_timer > 0
         then started_threads w @ [(os_path_join root_dir takeout_name, delete_timer)]
         else started_threads w) \<and>
      (if use_gui
       then Showinfo ''Success'' (Success (os_path_join root_dir takeout_name)
              (if delete_timer > 0 then Some delete_timer else None))
       else Print (Success (os_path_join root_dir takeout_name)
              (if delete_timer > 0 then Some delete_timer else None)))
      \<in> set (stdout w') \<and>
      (\<not> delete_timer > 0 \<longrightarrow>
         os_path_exists_takeout (fs_root w') \<and>
         last (stdout w') =
           (if use_gui
            then Showinfo ''Success'' (Success (os_path_join root_dir takeout_name) None)
            else Print (Success (os_path_join root_dir takeout_name) None)))) \<and>
   (time_sleep delay = Inl e' \<longrightarrow> delete_folder_after_delay path delay w = Inl e') \<and>
   (time_sleep delay = Inr () \<longrightarrow> (\<exists>w''. delete_folder_after_delay path delay w = Inr w'')) \<and>
   (time_sleep delay = Inr () \<and>
    os_path_exists_takeout (fs_root w) \<and> shutil_rmtree_takeout (fs_root w) = Inl e \<longrightarrow>
      delete_folder_after_delay path delay w =
        Inr (print (Deletion_error path e) (print (Scheduled_deletion path delay) w)))"
proof -
  have "delete_folder_after_delay path delay w = Inl e'" if "time_sleep delay = Inl e'"
    using that by (simp add: delete_folder_after_delay_def Let_def)
  moreover have "\<exists>w''. delete_folder_after_delay path delay w = Inr w''"
    if "time_sleep delay = Inr ()"
    using that by (simp add: delete_folder_after_delay_def Let_def split: sum.splits)
  moreover have "delete_folder_after_delay path delay w =
        Inr (print (Deletion_error path e) (print (Scheduled_deletion path delay) w))"
    if "time_sleep delay = Inr ()"
      "os_path_exists_takeout (fs_root w)" "shutil_rmtree_takeout (fs_root w) = Inl e"
    using that by (simp add: delete_folder_after_delay_def Let_def print_def)
  moreover have "started_threads w' =
        (if delete_timer > 0
         then started_threads w @ [(os_path_join root_dir takeout_name, delete_timer)]
         else started_threads w) \<and>
      (if use_gui
       then Showinfo ''Success'' (Success (os_path_join root_dir takeout_name)
              (if delete_timer > 0 then Some delete_timer else None))
       else Print (Success (os_path_join root_dir takeout_name)
              (if delete_timer > 0 then Some delete_timer else None)))
      \<in> set (stdout w') \<and>
      (\<not> delete_timer > 0 \<longrightarrow>
         os_path_exists_takeout (fs_root w') \<and>
         last (stdout w') =
           (if use_gui
            then Showinfo ''Success'' (Success (os_path_join root_dir takeout_name) None)
            else Print (Success (os_path_join root_dir takeout_name) None)))"
    if "create_takeout root_dir convert_to_txt empty_before delete_timer use_gui w = Inr w'"
    using create_takeout_result [OF that] by simp
  ultimately show ?thesis
    by blast
qed

theorem C9_witness:
  "(\<exists>w'. create_takeout ''/p'' False True 2 False (empty_world ex_two) = Inr w' \<and>
         started_threads w' = [(''/p/.takeout'', 2)] \<and>
         Print (Success ''/p/.takeout'' (Some 2)) \<in> set (stdout w')) \<and>
   create_takeout ''/p'' False True 0 False (empty_world ex_two) = Inr ex_two_after_plain_run \<and>
   started_threads ex_two_after_plain_run = [] \<and>
   os_path_exists_takeout (fs_root ex_two_after_plain_run) \<and>
   last (stdout ex_two_after_plain_run) = Print (Success ''/p/.takeout'' None) \<and>
   (\<exists>w'. create_takeout ''/p'' False True 10000000000 False (empty_world ex_two) = Inr w' \<and>
         started_threads w' = [(''/p/.takeout'', 10000000000)]) \<and>
   time_sleep 10000000000 = Inl OverflowError \<and>
   delete_folder_after_delay ''/p/.takeout'' 10000000000 (empty_world ex_two) = Inl OverflowError \<and>
   time_sleep (- 1) = Inl ValueError \<and>
   delete_folder_after_delay ''/p/.takeout'' (- 1) ex_takeout_is_file = Inl ValueError \<and>
   time_sleep 2 = Inr () \<and>
   delete_folder_after_delay ''/p/.takeout'' 2 ex_takeout_is_file =
     Inr (print (Deletion_error ''/p/.takeout'' NotADirectoryError)
           (print (Scheduled_deletion ''/p/.takeout'' 2) ex_takeout_is_file))"
proof -
  obtain w2 where
    r2: "create_takeout ''/p'' False True 2 False (empty_world ex_two) = Inr w2"
    using ex_two_scenario [of "''/p''" True 2 False] by blast
  have r0: "create_takeout ''/p'' False True 0 False (empty_world ex_two) = Inr ex_two_after_plain_run"
    by code_simp
  have f: "os_path_exists_takeout (fs_root ex_takeout_is_file) \<and>
           shutil_rmtree_takeout (fs_root ex_takeout_is_file) = Inl NotADirectoryError"
    by code_simp
  have j: "os_path_join ''/p'' takeout_name = ''/p/.takeout''"
    by code_simp
  have n: "time_sleep (- 1) = Inl ValueError"
    by (simp add: time_sleep_def)
  have p: "time_sleep 2 = Inr ()"
    by (simp add: time_sleep_def)
  from C9_deferred_deletion [of "''/p''" False True 2 False "empty_world ex_two"
      w2 "- 1" ValueError "''/p/.takeout''" NotADirectoryError] r2 j n
  have "started_threads w2 = [(''/p/.takeout'', 2)] \<and>
        Print (Success ''/p/.takeout'' (Some 2)) \<in> set (stdout w2)"
    by (simp add: empty_world_def)
  with r2 have a: "\<exists>w'. create_takeout ''/p'' False True 2 False (empty_world ex_two) = Inr w' \<and>
         started_threads w' = [(''/p/.takeout'', 2)] \<and>
         Print (Success ''/p/.takeout'' (Some 2)) \<in> set (stdout w')"
    by blast
  obtain w3 where
    r3: "create_takeout ''/p'' False True 10000000000 False (empty_world ex_two) = Inr w3"
    using ex_two_scenario [of "''/p''" True 10000000000 False] by blast
  have o: "time_sleep 10000000000 = Inl OverflowError"
    by (simp add: time_sleep_def)
  from C9_deferred_deletion [of "''/p''" False True 10000000000 False "empty_world ex_two"
      w3 10000000000 OverflowError "''/p/.takeout''" NotADirectoryError] r3 j o
  have "started_threads w3 = [(''/p/.takeout'', 10000000000)] \<and>
        delete_folder_after_delay ''/p/.takeout'' 10000000000 (empty_world ex_two) =
          Inl OverflowError"
    by (simp add: empty_world_def)
  with r3 have d: "(\<exists>w'. create_takeout ''/p'' False True 10000000000 False (empty_world ex_two) = Inr w' \<and>
         started_threads w' = [(''/p/.takeout'', 10000000000)]) \<and>
       delete_folder_after_delay ''/p/.takeout'' 10000000000 (empty_world ex_two) =
          Inl OverflowError"
    by blast
  from C9_deferred_deletion [of "''/p''" False True 0 False "empty_world ex_two"
      ex_two_after_plain_run "- 1" ValueError "''/p/.takeout''" NotADirectoryError] r0 j
  have b: "started_threads ex_two_after_plain_run = [] \<and>
        os_path_exists_takeout (fs_root ex_two_after_plain_run) \<and>
        last (stdout ex_two_after_plain_run) = Print (Success ''/p/.takeout'' None)"
    by (simp add: empty_world_def)
  from C9_deferred_deletion [of "''/p''" False True 0 False ex_takeout_is_file
      ex_takeout_is_file "- 1" ValueError "''/p/.takeout''" NotADirectoryError] n
  have c: "delete_folder_after_delay ''/p/.takeout'' (- 1) ex_takeout_is_file = Inl ValueError"
    by blast
  from C9_deferred_deletion [of "''/p''" False True 0 False ex_takeout_is_file
      ex_takeout_is_file 2 ValueError "''/p/.takeout''" NotADirectoryError] f p
  have "delete_folder_after_delay ''/p/.takeout'' 2 ex_takeout_is_file =
     Inr (print (Deletion_error ''/p/.takeout'' NotADirectoryError)
           (print (Scheduled_deletion ''/p/.takeout'' 2) ex_takeout_is_file))"
    by blast
  with a b c d r0 n o p show ?thesis by blast
qed

section \<open>C3: the copies of a collision group\<close>

text \<open>
  C3.  The copier makes the calls of \<open>copy_plan\<close>.  It returns when it starts from a
  \<open>takeout_dir\<close> of plain files, every source is a readable file, and every source that is
  not writable is copied to a name that no other copy goes to (a copy has the permission bits
  of its source, so a second copy to the name of a read-only one raises).  For a file name
  with more than one path, each of its paths is copied under its unique name: when the copier
  returns, having started from a \<open>takeout_dir\<close> of plain files, that name is a readable
  regular file of \<open>takeout_dir\<close>, and it is a copy of the source, content and permission
  bits, unless another copy went to the same name.  For valid names the
  unique name is the relative path with underscores for separators.  On the tree that holds
  exactly \<open>a/x.txt\<close> and \<open>b/x.txt\<close>, every run returns and \<open>takeout_dir\<close> then holds the guide,
  \<open>a_x.txt\<close> and \<open>b_x.txt\<close> (with \<open>.txt\<close> appended to both when \<open>convert_to_txt\<close> is set), and no
  \<open>x.txt\<close>.
\<close>

theorem C3_collision_group_copies:
  "copy_files idx es = for_each (\<lambda>(src, dst). shutil_copy2 src dst) (copy_plan idx) es \<and>
   (map_of es takeout_name = Some (Dir te) \<and> plain_files te \<and>
    (\<forall>(src, dst) \<in> set (copy_plan idx).
       outside_takeout src \<and>
       (\<exists>w c. lookup_path es src = Some (File True w c) \<and>
              (\<not> w \<longrightarrow> length (filter (\<lambda>sd. snd sd = dst) (copy_plan idx)) = 1))) \<longrightarrow>
      (\<exists>es'. copy_files idx es = Inr es')) \<and>
   (map_of es takeout_name = Some (Dir te) \<and> plain_files te \<and>
    (\<forall>(src, dst) \<in> set (copy_plan idx). outside_takeout src) \<and>
    copy_files idx es = Inr es' \<and>
    (filename, paths) \<in> set idx \<and> 1 < length paths \<and> p \<in> set paths \<longrightarrow>
      (p, unique_name p filename) \<in> set (copy_plan idx) \<and>
      (\<exists>w c. map_of (takeout_entries es') (unique_name p filename) = Some (File True w c)) \<and>
      ((\<forall>(src, dst) \<in> set (copy_plan idx). dst = unique_name p filename \<longrightarrow> src = p) \<longrightarrow>
         map_of (takeout_entries es') (unique_name p filename) = lookup_path es p)) \<and>
   (list_all valid_name (dirs @ [name]) \<and> dirs \<noteq> [] \<longrightarrow>
      unique_name (dirs @ [name]) name = underscore_joined (dirs @ [name])) \<and>
   (\<exists>w' guide.
      create_takeout root_dir False empty_before delete_timer use_gui (empty_world ex_two) = Inr w' \<and>
      takeout_entries (fs_root w') =
        [(''structure_guide.txt'', File True True (Text guide)),
         (''a_x.txt'', File True True (Text ''A'')),
         (''b_x.txt'', File True True (Text ''B''))]) \<and>
   (\<exists>w' guide.
      create_takeout root_dir True empty_before delete_timer use_gui (empty_world ex_two) = Inr w' \<and>
      takeout_entries (fs_root w') =
        [(''structure_guide.txt'', File True True (Text guide)),
         (''a_x.txt.txt'', File True True (Text ''A'')),
         (''b_x.txt.txt'', File True True (Text ''B''))])"
proof -
  have group:
    "(p, unique_name p filename) \<in> set (copy_plan idx) \<and>
      (\<exists>w c. map_of (takeout_entries es') (unique_name p filename) = Some (File True w c)) \<and>
      ((\<forall>(src, dst) \<in> set (copy_plan idx). dst = unique_name p filename \<longrightarrow> src = p) \<longrightarrow>
         map_of (takeout_entries es') (unique_name p filename) = lookup_path es p)"
    if t: "map_of es takeout_name = Some (Dir te)" and pl: "plain_files te"
      and o: "\<forall>(src, dst) \<in> set (copy_plan idx). outside_takeout src"
      and c: "copy_files idx es = Inr es'"
      and i: "(filename, paths) \<in> set idx" "1 < length paths" "p \<in> set paths"
  proof -
    let ?k = "unique_name p filename"
    from c have "for_each (\<lambda>(src, dst). shutil_copy2 src dst) (copy_plan idx) es = Inr es'"
      by (simp add: copy_files_plan)
    from copy_plan_effect [OF this t plain_regular [OF pl] o] obtain te' where
      e: "es' = AList.update takeout_name (Dir te') es"
      and m: "\<And>k. map_of te' k =
                  (case find (\<lambda>(src, dst). dst = k) (rev (copy_plan idx)) of
                     None \<Rightarrow> map_of te k
                   | Some (src, dst) \<Rightarrow> lookup_path es src)"
      and r: "\<forall>(src, dst) \<in> set (copy_plan idx). \<exists>w c. lookup_path es src = Some (File True w c)"
      by blast
    have te': "takeout_entries es' = te'"
      by (simp add: e takeout_entries_update)
    have mem: "(p, ?k) \<in> set (copy_plan idx)"
      using i by (rule copy_plan_mem)
    from find_rev_plan [OF mem] obtain s where
      f: "find (\<lambda>(src, dst). dst = ?k) (rev (copy_plan idx)) = Some (s, ?k)"
      and s: "(s, ?k) \<in> set (copy_plan idx)"
      by blast
    from m [of ?k] f have l: "map_of te' ?k = lookup_path es s" by simp
    from r s obtain w0 c0 where "lookup_path es s = Some (File True w0 c0)" by auto
    with l have ex: "\<exists>w c. map_of te' ?k = Some (File True w c)" by simp
    have "map_of te' ?k = lookup_path es p"
      if "\<forall>(src, dst) \<in> set (copy_plan idx). dst = ?k \<longrightarrow> src = p"
    proof -
      from that s have "s = p" by auto
      with l show ?thesis by simp
    qed
    with mem ex show ?thesis unfolding te' by blast
  qed
  have returns: "\<exists>es'. copy_files idx es = Inr es'"
    if t: "map_of es takeout_name = Some (Dir te)" and pl: "plain_files te"
      and r: "\<forall>(src, dst) \<in> set (copy_plan idx).
         outside_takeout src \<and>
         (\<exists>w c. lookup_path es src = Some (File True w c) \<and>
                (\<not> w \<longrightarrow> length (filter (\<lambda>sd. snd sd = dst) (copy_plan idx)) = 1))"
  proof -
    have "\<forall>(src, dst) \<in> set (copy_plan idx).
            \<forall>r' w' c'. map_of te dst = Some (File r' w' c') \<longrightarrow> w'"
      using plain_files_lookup [OF pl] by blast
    from copy_plan_returns [OF t plain_regular [OF pl] this r] show ?thesis
      by (simp add: copy_files_plan)
  qed
  show ?thesis
    using copy_files_plan [of idx es] returns group unique_name_valid [of dirs name]
      ex_two_scenario [of root_dir empty_before delete_timer use_gui]
      ex_two_scenario_txt [of root_dir empty_before delete_timer use_gui]
    by blast
qed

theorem C3_witness:
  "copy_files (build_file_paths {} ex_two_prepared) (ex_two_guided ''g'') = Inr (ex_two_copied ''g'') \<and>
   (\<exists>es'. copy_files (build_file_paths {} ex_two_prepared) (ex_two_guided ''g'') = Inr es') \<and>
   ([''a'', ''x.txt''], ''a_x.txt'') \<in> set (copy_plan (build_file_paths {} ex_two_prepared)) \<and>
   map_of (takeout_entries (ex_two_copied ''g'')) ''a_x.txt'' = Some (File True True (Text ''A'')) \<and>
   unique_name [''b'', ''x.txt''] ''x.txt'' = ''b_x.txt''"
proof -
  let ?idx = "build_file_paths {} ex_two_prepared"
  have c: "copy_files ?idx (ex_two_guided ''g'') = Inr (ex_two_copied ''g'')"
    by code_simp
  have h: "map_of (ex_two_guided ''g'') takeout_name =
             Some (Dir [(''structure_guide.txt'', File True True (Text ''g''))]) \<and>
           plain_files [(''structure_guide.txt'', File True True (Text ''g''))] \<and>
           (\<forall>(src, dst) \<in> set (copy_plan ?idx). outside_takeout src) \<and>
           (''x.txt'', [[''a'', ''x.txt''], [''b'', ''x.txt'']]) \<in> set ?idx \<and>
           1 < length [[''a'', ''x.txt''], [''b'', ''x.txt'']] \<and>
           [''a'', ''x.txt''] \<in> set [[''a'', ''x.txt''], [''b'', ''x.txt'']]"
    by code_simp
  have r: "\<forall>(src, dst) \<in> set (copy_plan ?idx).
             outside_takeout src \<and>
             (\<exists>w c. lookup_path (ex_two_guided ''g'') src = Some (File True w c) \<and>
                    (\<not> w \<longrightarrow> length (filter (\<lambda>sd. snd sd = dst) (copy_plan ?idx)) = 1))"
    by (simp add: ex_two_index copy_plan_def unique_name_def os_path_dirname_def
        os_path_relpath_def os_path_join_def str_replace_def startswith_def endswith_def
        os_sep_def outside_takeout_def takeout_name_def ex_two_guided_def ex_two_def)
      blast
  have u: "unique_name [''a'', ''x.txt''] ''x.txt'' = ''a_x.txt''"
    by code_simp
  have l: "lookup_path (ex_two_guided ''g'') [''a'', ''x.txt''] = Some (File True True (Text ''A''))"
    by code_simp
  have d: "\<forall>(src, dst) \<in> set (copy_plan ?idx). dst = ''a_x.txt'' \<longrightarrow> src = [''a'', ''x.txt'']"
    by code_simp
  have v: "list_all valid_name ([''b''] @ [''x.txt'']) \<and> [''b''] \<noteq> []"
    by code_simp
  have j: "underscore_joined ([''b''] @ [''x.txt'']) = ''b_x.txt''"
    by code_simp
  note t = C3_collision_group_copies [of ?idx "ex_two_guided ''g''"
      "[(''structure_guide.txt'', File True True (Text ''g''))]" "ex_two_copied ''g''"
      "''x.txt''" "[[''a'', ''x.txt''], [''b'', ''x.txt'']]" "[''a'', ''x.txt'']"
      "[''b'']" "''x.txt''" "''/p''" True 0 False]
  from t h r have "\<exists>es'. copy_files ?idx (ex_two_guided ''g'') = Inr es'"
    by blast
  moreover from t h c u have "([''a'', ''x.txt''], ''a_x.txt'') \<in> set (copy_plan ?idx)"
    by simp
  moreover from t h c u d l
  have "map_of (takeout_entries (ex_two_copied ''g'')) ''a_x.txt'' = Some (File True True (Text ''A''))"
    by simp
  moreover from t v j have "unique_name [''b'', ''x.txt''] ''x.txt'' = ''b_x.txt''"
    by simp
  ultimately show ?thesis using c by blast
qed

lemma convert_names_items: "convert_names te = for_each convert_item (os_listdir te) te"
  by (simp add: convert_names_def convert_item_def [abs_def])

lemma set_delete: "set (AList.delete k te) = {e \<in> set te. fst e \<noteq> k}"
  by (auto simp: AList.delete_eq)

lemma os_rename_free:
  assumes "(src, node) \<in> set te" "distinct (map fst te)" "dst \<notin> fst ` set te"
  shows "os_rename src dst te = Inr (AList.delete src te @ [(dst, node)])"
proof -
  from assms(1,2) have "map_of te src = Some node" by simp
  moreover from assms(3) have "map_of te dst = None"
    by (simp add: map_of_eq_None_iff)
  moreover from assms(1,3) have "src \<noteq> dst" by force
  ultimately show ?thesis by (simp add: os_rename_def)
qed

lemma convert_items:
  assumes "distinct items" "set items \<subseteq> fst ` set te" "distinct (map fst te)"
      and "\<forall>n \<in> set items. n \<noteq> guide_name \<longrightarrow> n @ ''.txt'' \<notin> fst ` set te"
  shows "\<exists>te'. for_each convert_item items te = Inr te' \<and> distinct (map fst te') \<and>
           set te' = {e \<in> set te. fst e \<notin> set items} \<union>
                     (\<lambda>(n, node). (suffixed n, node)) ` {e \<in> set te. fst e \<in> set items}"
  using assms
proof (induction items arbitrary: te)
  case Nil
  then show ?case by simp
next
  case (Cons x xs)
  let ?F = "\<lambda>(n, node). (suffixed n, node)"
  from Cons.prems(1) have xs: "distinct xs" and x: "x \<notin> set xs" by simp_all
  from Cons.prems(2) obtain node where node: "(x, node) \<in> set te" by auto
  have one: "{e \<in> set te. fst e = x} = {(x, node)}"
    using node Cons.prems(3) by (auto simp: eq_key_imp_eq_value)
  show ?case
  proof (cases "x = guide_name")
    case True
    have sub: "set xs \<subseteq> fst ` set te" using Cons.prems(2) by simp
    have free: "\<forall>n \<in> set xs. n \<noteq> guide_name \<longrightarrow> n @ ''.txt'' \<notin> fst ` set te"
      using Cons.prems(4) by simp
    from Cons.IH [OF xs sub Cons.prems(3) free] obtain te' where
      r: "for_each convert_item xs te = Inr te'" and d: "distinct (map fst te')"
      and s: "set te' = {e \<in> set te. fst e \<notin> set xs} \<union> ?F ` {e \<in> set te. fst e \<in> set xs}"
      by blast
    have "for_each convert_item (x # xs) te = Inr te'"
      using r True by (simp add: convert_item_def)
    moreover have "?F (x, node) = (x, node)"
      using True by (simp add: suffixed_def)
    then have "{e \<in> set te. fst e \<notin> set xs} \<union> ?F ` {e \<in> set te. fst e \<in> set xs} =
          {e \<in> set te. fst e \<notin> set (x # xs)} \<union> ?F ` {e \<in> set te. fst e \<in> set (x # xs)}"
      (is "?A = ?B")
    proof -
      assume fx: "?F (x, node) = (x, node)"
      have "{e \<in> set te. fst e \<notin> set xs} = {e \<in> set te. fst e \<notin> set (x # xs)} \<union> {(x, node)}"
        using one x by auto
      moreover have "{e \<in> set te. fst e \<in> set (x # xs)} = {(x, node)} \<union> {e \<in> set te. fst e \<in> set xs}"
        using one by auto
      ultimately show ?thesis using fx by (simp add: image_Un Un_ac)
    qed
    ultimately show ?thesis using d s by simp
  next
    case False
    with Cons.prems(4) have fr: "x @ ''.txt'' \<notin> fst ` set te" by simp
    let ?te1 = "AList.delete x te @ [(x @ ''.txt'', node)]"
    have ren: "convert_item x te = Inr ?te1"
      using False os_rename_free [OF node Cons.prems(3) fr] by (simp add: convert_item_def)
    have set1: "set ?te1 = {e \<in> set te. fst e \<noteq> x} \<union> {(x @ ''.txt'', node)}"
      by (simp add: set_delete)
    have names1: "fst ` set ?te1 = (fst ` set te - {x}) \<union> {x @ ''.txt''}"
      unfolding set1 by force
    have "distinct (map fst (AList.delete x te))"
      using Cons.prems(3) by (rule distinct_delete)
    moreover have "x @ ''.txt'' \<notin> fst ` set (AList.delete x te)"
      using fr dom_delete_subset [of x te] by blast
    ultimately have d1: "distinct (map fst ?te1)"
      by simp
    have sub1: "set xs \<subseteq> fst ` set ?te1"
      unfolding names1 using Cons.prems(2) x by auto
    have free1: "\<forall>n \<in> set xs. n \<noteq> guide_name \<longrightarrow> n @ ''.txt'' \<notin> fst ` set ?te1"
      unfolding names1 using Cons.prems(4) x by auto
    from Cons.IH [OF xs sub1 d1 free1] obtain te' where
      r: "for_each convert_item xs ?te1 = Inr te'" and d: "distinct (map fst te')"
      and s: "set te' = {e \<in> set ?te1. fst e \<notin> set xs} \<union> ?F ` {e \<in> set ?te1. fst e \<in> set xs}"
      by blast
    have run: "for_each convert_item (x # xs) te = Inr te'"
      using r ren by simp
    have nx: "x @ ''.txt'' \<notin> set xs"
      using fr Cons.prems(2) by auto
    have a: "{e \<in> set ?te1. fst e \<notin> set xs} =
             {e \<in> set te. fst e \<notin> set (x # xs)} \<union> {(x @ ''.txt'', node)}"
      unfolding set1 using nx by auto
    have b: "{e \<in> set ?te1. fst e \<in> set xs} = {e \<in> set te. fst e \<in> set xs}"
      unfolding set1 using nx x by auto
    have c: "{e \<in> set te. fst e \<in> set (x # xs)} = {(x, node)} \<union> {e \<in> set te. fst e \<in> set xs}"
      using one by auto
    have fx: "?F (x, node) = (x @ ''.txt'', node)"
      using False by (simp add: suffixed_def)
    have "set te' = {e \<in> set te. fst e \<notin> set (x # xs)} \<union> ?F ` {e \<in> set te. fst e \<in> set (x # xs)}"
      unfolding s a b c using fx by (simp add: image_Un Un_ac)
    with run d show ?thesis by blast
  qed
qed

section \<open>C4: the normalization pass\<close>

text \<open>
  C4, as amended.  Let the listing of \<open>takeout_dir\<close> have no name twice, and let no entry other
  than \<open>structure_guide.txt\<close> have a name that, with \<open>.txt\<close> appended, is the name of an entry.
  Then the normalization pass returns, and \<open>takeout_dir\<close> afterwards holds exactly the entries
  it held before, \<open>structure_guide.txt\<close> under its name and every other one under its name with
  \<open>.txt\<close> appended.  (Without the second condition \<open>os.rename\<close> replaces a file: from \<open>a\<close> and
  \<open>a.txt\<close>, listed in this order, only \<open>a.txt.txt\<close> is left, with the content of \<open>a\<close>.)
\<close>

theorem C4_suffix_appended:
  assumes "distinct (os_listdir te)"
      and "\<forall>n \<in> set (os_listdir te). n \<noteq> guide_name \<longrightarrow> n @ ''.txt'' \<notin> set (os_listdir te)"
  shows "\<exists>te'. convert_names te = Inr te' \<and> distinct (os_listdir te') \<and>
               set te' = set (spec_converted te)"
proof -
  have "set (os_listdir te) \<subseteq> fst ` set te"
    by (simp add: os_listdir_def)
  from convert_items [OF assms(1) this] assms obtain te' where
    r: "for_each convert_item (os_listdir te) te = Inr te'" and d: "distinct (map fst te')"
    and s: "set te' = {e \<in> set te. fst e \<notin> set (os_listdir te)} \<union>
              (\<lambda>(n, node). (suffixed n, node)) ` {e \<in> set te. fst e \<in> set (os_listdir te)}"
    by (auto simp: os_listdir_def)
  have e1: "{e \<in> set te. fst e \<notin> set (os_listdir te)} = {}"
    by (auto simp: os_listdir_def)
  have e2: "{e \<in> set te. fst e \<in> set (os_listdir te)} = set te"
    by (auto simp: os_listdir_def)
  have "set te' = set (spec_converted te)"
    unfolding s e1 e2 spec_converted_def by simp
  with r d show ?thesis
    by (simp add: convert_names_items os_listdir_def)
qed

theorem C4_witness:
  "distinct (os_listdir ex_plain_takeout) \<and>
   convert_names ex_plain_takeout = Inr ex_plain_converted \<and>
   set ex_plain_converted = set (spec_converted ex_plain_takeout) \<and>
   map_of ex_plain_converted ''readme.md.txt'' = Some (File True True (Text ''r''))"
proof -
  have 1: "distinct (os_listdir ex_plain_takeout)"
    by code_simp
  have 2: "\<forall>n \<in> set (os_listdir ex_plain_takeout).
             n \<noteq> guide_name \<longrightarrow> n @ ''.txt'' \<notin> set (os_listdir ex_plain_takeout)"
    by code_simp
  have 3: "convert_names ex_plain_takeout = Inr ex_plain_converted"
    by code_simp
  have 4: "map_of ex_plain_converted ''readme.md.txt'' = Some (File True True (Text ''r''))"
    by code_simp
  from C4_suffix_appended [OF 1 2] 3
  have "set ex_plain_converted = set (spec_converted ex_plain_takeout)"
    by auto
  with 1 3 4 show ?thesis by blast
qed

theorem C4_counterexample:
  "create_takeout ''/p'' False True 0 False (empty_world ex_clash) = Inr ex_clash_copied \<and>
   takeout_entries (fs_root ex_clash_copied) = ex_clash_takeout \<and>
   create_takeout ''/p'' True True 0 False (empty_world ex_clash) = Inr ex_clash_after \<and>
   convert_names ex_clash_takeout =
     Inr [(''structure_guide.txt'', File True True (Text ex_clash_guide)),
          (''a.txt.txt'', File True True (Text ''A''))] \<and>
   spec_converted ex_clash_takeout =
     [(''structure_guide.txt'', File True True (Text ex_clash_guide)),
      (''a.txt'', File True True (Text ''A'')),
      (''a.txt.txt'', File True True (Text ''B''))] \<and>
   map_of (takeout_entries (fs_root ex_clash_after)) ''a.txt'' = None"
  by code_simp

lemma os_rename_other:
  assumes "os_rename src dst te = Inr te'" "k \<noteq> src" "k \<noteq> dst"
  shows "map_of te' k = map_of te k"
  using assms
  by (auto simp: os_rename_def update_conv' delete_conv' map_add_def
      split: option.splits fsnode.splits if_splits)

lemma convert_item_other:
  assumes "convert_item item te = Inr te'" "item \<noteq> ''structure_guide''"
  shows "map_of te' guide_name = map_of te guide_name"
proof (cases "item = guide_name")
  case True
  with assms(1) show ?thesis by (simp add: convert_item_def)
next
  case False
  with assms(1) have r: "os_rename item (item @ ''.txt'') te = Inr te'"
    by (simp add: convert_item_def)
  from assms(2) have d: "guide_name \<noteq> item @ ''.txt''"
    by (auto simp: guide_name_def)
  from False have "guide_name \<noteq> item" by simp
  with r show ?thesis using d by (rule os_rename_other)
qed

lemma convert_items_guide:
  "for_each convert_item items te = Inr te' \<Longrightarrow> ''structure_guide'' \<notin> set items \<Longrightarrow>
   map_of te' guide_name = map_of te guide_name"
proof (induction items arbitrary: te)
  case Nil
  then show ?case by simp
next
  case (Cons x xs)
  from Cons.prems(1) obtain te1 where
    a: "convert_item x te = Inr te1" and b: "for_each convert_item xs te1 = Inr te'"
    by (auto split: sum.splits)
  from Cons.prems(2) have "x \<noteq> ''structure_guide''" "''structure_guide'' \<notin> set xs"
    by auto
  with Cons.IH [OF b] convert_item_other [OF a] show ?case by simp
qed

lemma convert_names_guide:
  "convert_names te = Inr te' \<Longrightarrow> ''structure_guide'' \<notin> set (os_listdir te) \<Longrightarrow>
   map_of te' guide_name = map_of te guide_name"
  unfolding convert_names_items by (rule convert_items_guide)

lemma copy_plan_single:
  assumes "(filename, [p]) \<in> set idx"
  shows "(p, filename) \<in> set (copy_plan idx)"
proof -
  let ?f = "\<lambda>(filename, paths).
              if length paths = 1 then [(paths ! 0, filename)]
              else map (\<lambda>p. (p, unique_name p filename)) paths"
  have "(p, filename) \<in> set (?f (filename, [p]))"
    by simp
  with assms have "\<exists>item \<in> set idx. (p, filename) \<in> set (?f item)"
    by (rule rev_bexI)
  then show ?thesis
    by (simp add: copy_plan_def)
qed

section \<open>C10: a \<open>structure_guide.txt\<close> of the source tree\<close>

text \<open>
  C10, as amended.  Let \<open>file_paths\<close> hold exactly one path \<open>p\<close> for the name
  \<open>structure_guide.txt\<close>, and let the copier, started from a \<open>takeout_dir\<close> of plain files (the
  guide is written by then), return.  If no other copy goes to the name \<open>structure_guide.txt\<close>,
  then \<open>structure_guide.txt\<close> in \<open>takeout_dir\<close> has the content of \<open>p\<close> after the copier, not the
  guide; and it still has it after the normalization pass, if \<open>takeout_dir\<close> had no entry
  \<open>structure_guide\<close>.  (Otherwise a collision group's copy, or the renamed \<open>structure_guide\<close>,
  replaces it.)
\<close>

theorem C10_source_guide_replaces_guide:
  assumes takeout: "map_of es takeout_name = Some (Dir te)" "plain_files te"
      and srcs: "\<forall>(src, dst) \<in> set (copy_plan idx). outside_takeout src"
      and single: "(guide_name, [p]) \<in> set idx"
      and only: "\<forall>(src, dst) \<in> set (copy_plan idx). dst = guide_name \<longrightarrow> src = p"
      and copied: "copy_files idx es = Inr es'"
  shows "\<exists>w c. lookup_path es p = Some (File True w c) \<and>
             map_of (takeout_entries es') guide_name = Some (File True w c) \<and>
             (\<forall>te''. convert_names (takeout_entries es') = Inr te'' \<and>
                     ''structure_guide'' \<notin> set (os_listdir (takeout_entries es')) \<longrightarrow>
                     map_of te'' guide_name = Some (File True w c))"
proof -
  from copied have "for_each (\<lambda>(src, dst). shutil_copy2 src dst) (copy_plan idx) es = Inr es'"
    by (simp add: copy_files_plan)
  from copy_plan_effect [OF this takeout(1) plain_regular [OF takeout(2)] srcs] obtain te' where
    e: "es' = AList.update takeout_name (Dir te') es"
    and m: "\<And>k. map_of te' k =
                (case find (\<lambda>(src, dst). dst = k) (rev (copy_plan idx)) of
                   None \<Rightarrow> map_of te k
                 | Some (src, dst) \<Rightarrow> lookup_path es src)"
    and r: "\<forall>(src, dst) \<in> set (copy_plan idx). \<exists>w c. lookup_path es src = Some (File True w c)"
    by blast
  have te': "takeout_entries es' = te'"
    by (simp add: e takeout_entries_update)
  have mem: "(p, guide_name) \<in> set (copy_plan idx)"
    using single by (rule copy_plan_single)
  from find_rev_plan [OF mem] obtain s where
    f: "find (\<lambda>(src, dst). dst = guide_name) (rev (copy_plan idx)) = Some (s, guide_name)"
    and s: "(s, guide_name) \<in> set (copy_plan idx)"
    by blast
  from only s have "s = p" by auto
  with m [of guide_name] f have l: "map_of te' guide_name = lookup_path es p" by simp
  from r mem obtain w c where c: "lookup_path es p = Some (File True w c)" by auto
  have "map_of te'' guide_name = Some (File True w c)"
    if "convert_names te' = Inr te''" "''structure_guide'' \<notin> set (os_listdir te')" for te''
    using convert_names_guide [OF that] l c by simp
  with l c show ?thesis unfolding te' by auto
qed

theorem C10_witness:
  "copy_files (build_file_paths {} ex_with_guide_written) ex_with_guide_written =
     Inr ex_with_guide_copied \<and>
   map_of (takeout_entries ex_with_guide_copied) guide_name = Some (File True True (Text ''mine'')) \<and>
   create_takeout ''/p'' True True 0 False (empty_world ex_with_guide) = Inr ex_with_guide_after \<and>
   map_of (takeout_entries (fs_root ex_with_guide_after)) guide_name = Some (File True True (Text ''mine''))"
proof -
  let ?idx = "build_file_paths {} ex_with_guide_written"
  have 1: "map_of ex_with_guide_written takeout_name =
             Some (Dir [(''structure_guide.txt'', File True True (Text ''g''))])"
    by code_simp
  have 2: "plain_files [(''structure_guide.txt'', File True True (Text ''g''))]"
    by code_simp
  have 3: "\<forall>(src, dst) \<in> set (copy_plan ?idx). outside_takeout src"
    by code_simp
  have 4: "(guide_name, [[''structure_guide.txt'']]) \<in> set ?idx"
    by code_simp
  have 5: "\<forall>(src, dst) \<in> set (copy_plan ?idx). dst = guide_name \<longrightarrow> src = [''structure_guide.txt'']"
    by code_simp
  have 6: "copy_files ?idx ex_with_guide_written = Inr ex_with_guide_copied"
    by code_simp
  have 7: "lookup_path ex_with_guide_written [''structure_guide.txt''] = Some (File True True (Text ''mine''))"
    by code_simp
  have 8: "create_takeout ''/p'' True True 0 False (empty_world ex_with_guide) = Inr ex_with_guide_after"
    by code_simp
  have 9: "map_of (takeout_entries (fs_root ex_with_guide_after)) guide_name = Some (File True True (Text ''mine''))"
    by code_simp
  from C10_source_guide_replaces_guide [OF 1 2 3 4 5 6] 7
  have "map_of (takeout_entries ex_with_guide_copied) guide_name = Some (File True True (Text ''mine''))"
    by auto
  with 6 8 9 show ?thesis by blast
qed

theorem C10_counterexample:
  "build_file_paths {} ex_two_guides =
     [(''structure_guide.txt'', [[''structure_guide.txt'']]),
      (''structure_guide'', [[''structure_guide'']])] \<and>
   lookup_path ex_two_guides [''structure_guide.txt''] = Some (File True True (Text ''mine'')) \<and>
   create_takeout ''/p'' True True 0 False (empty_world ex_two_guides) = Inr ex_two_guides_after \<and>
   takeout_entries (fs_root ex_two_guides_after) =
     [(''structure_guide.txt'', File True True (Text ''other''))] \<and>
   build_file_paths {} ex_guide_collision =
     [(''structure_guide.txt'', [[''structure_guide.txt'']]),
      (''guide.txt'', [[''structure'', ''guide.txt''], [''other'', ''guide.txt'']])] \<and>
   lookup_path ex_guide_collision [''structure_guide.txt''] = Some (File True True (Text ''mine'')) \<and>
   create_takeout ''/p'' False True 0 False (empty_world ex_guide_collision) =
     Inr ex_guide_collision_after \<and>
   map_of (takeout_entries (fs_root ex_guide_collision_after)) guide_name =
     Some (File True True (Text ''B''))"
  by code_simp

section \<open>Two whole runs\<close>

text \<open>
  The file \<open>.takeoutignore\<close> is a file of \<open>root_dir\<close> like any other: it is listed in the guide
  and copied.  When it cannot be opened for lack of permission, the loader goes on with no
  patterns (C6), and \<open>shutil.copy2\<close> of that file later raises.
\<close>

lemma ignore_file_is_copied:
  "create_takeout ''/p'' False True 0 False (empty_world ex_scenario) = Inr ex_scenario_after"
  by code_simp

lemma unreadable_ignore_file_stops_the_copier:
  "create_takeout ''/p'' False True 0 False ex_unreadable_ignore = Inl PermissionError"
  by code_simp

text \<open>
  A copy has the permission bits of its source.  In \<open>ex_readonly_collision\<close> the read-only
  file \<open>a_x.txt\<close> is copied first, under its own name; the copy of \<open>a/x.txt\<close> then goes to the
  same name, cannot open it for writing, and the run stops.
\<close>

lemma readonly_copy_stops_the_copier:
  "build_file_paths {} ex_readonly_collision =
     [(''a_x.txt'', [[''a_x.txt'']]), (''x.txt'', [[''b'', ''x.txt''], [''a'', ''x.txt'']])] \<and>
   create_takeout ''/p'' False True 0 False (empty_world ex_readonly_collision) =
     Inl PermissionError"
  by code_simp

end
